theory Spec2Isabelle
  imports Complex_Main "HOL-Library.Multiset"
begin

section \<open>Tensors, errors and graphs\<close>

text \<open>
  The notebook \<^verbatim>\<open>train.ipynb\<close> builds DGL graphs from weighted edge lists and runs a
  two-layer graph network over them. Tensors of floats are modelled as lists of reals
  (a vector) and lists of rows (a matrix): the arithmetic of the layers is the exact
  arithmetic that the floating-point operations approximate. Exceptions are values of
  type \<open>error\<close>; a function that can raise returns \<open>error + 'a\<close>.
  \<^item> \<open>IndexError\<close> and \<open>KeyError\<close> are the Python exceptions of an index out of
    range and of a missing key.
  \<^item> \<open>TorchError\<close> is the exception of a torch function that rejects its arguments:
    \<^verbatim>\<open>torch.zeros\<close> of a negative size, \<^verbatim>\<open>nn.Linear\<close> or \<^verbatim>\<open>torch.cat\<close> on rows of
    unfit width, \<^verbatim>\<open>torch.max\<close> over no element. Its Python class is \<^verbatim>\<open>RuntimeError\<close>
    for most of them and, for \<^verbatim>\<open>torch.max\<close>, \<^verbatim>\<open>RuntimeError\<close> or \<^verbatim>\<open>IndexError\<close>
    according to the torch release; the model has one value for all of them.
  \<^item> \<open>DGLError\<close> is the exception of DGL.
  \<^item> \<open>InsufficientNodesError\<close> is the error kind named by the specification for the
    readout; no statement of the notebook raises it and no library has it.
\<close>

datatype error = IndexError | KeyError | TorchError | DGLError | InsufficientNodesError

type_synonym vec = "real list"
type_synonym tensor = "real list list"

text \<open>A directed edge of a DGL graph with its two edge features:
  source, destination, \<^verbatim>\<open>weight\<close> and \<^verbatim>\<open>direction\<close>.\<close>

type_synonym edge = "nat \<times> nat \<times> real \<times> real"

record graph =
  n_nodes :: nat
  edges :: "edge list"
  ndata_h :: tensor

text \<open>\<^verbatim>\<open>dgl.batch\<close> returns a graph that also records the node count of every member.\<close>

record batched_graph = graph +
  batch_num_nodes :: "nat list"

definition e_src :: "edge \<Rightarrow> nat" where
  "e_src e = fst e"

definition e_dst :: "edge \<Rightarrow> nat" where
  "e_dst e = fst (snd e)"

definition e_weight :: "edge \<Rightarrow> real" where
  "e_weight e = fst (snd (snd e))"

definition e_direction :: "edge \<Rightarrow> real" where
  "e_direction e = snd (snd (snd e))"

section \<open>Graph construction\<close>

subsection \<open>The networkx digraph\<close>

text \<open>
  \<^verbatim>\<open>nx.DiGraph\<close> keeps a dictionary from each node to the dictionary of its successors
  (with the edge weight); Python dictionaries keep insertion order, and assigning to a
  key that is present replaces the value in place. Both dictionaries are association
  lists here.
\<close>

type_synonym digraph = "(nat \<times> (nat \<times> real) list) list"

primrec dict_set :: "'k \<Rightarrow> 'v \<Rightarrow> ('k \<times> 'v) list \<Rightarrow> ('k \<times> 'v) list" where
  "dict_set k v [] = [(k, v)]"
| "dict_set k v (p # ps) = (if fst p = k then (k, v) # ps else p # dict_set k v ps)"

definition has_node :: "digraph \<Rightarrow> nat \<Rightarrow> bool" where
  "has_node G u = (u \<in> set (map fst G))"

definition add_node :: "nat \<Rightarrow> digraph \<Rightarrow> digraph" where
  "add_node u G = (if has_node G u then G else G @ [(u, [])])"

definition add_edge :: "nat \<times> nat \<times> real \<Rightarrow> digraph \<Rightarrow> digraph" where
  "add_edge e G =
     (case e of (u, v, w) \<Rightarrow>
        map (\<lambda>(n, nbrs). if n = u then (n, dict_set v w nbrs) else (n, nbrs))
            (add_node v (add_node u G)))"

text \<open>\<^verbatim>\<open>nx.read_weighted_edgelist\<close>, after the lines of the file are parsed into triples:
  one \<^verbatim>\<open>add_edge\<close> per line, in file order, on an empty \<^verbatim>\<open>DiGraph\<close>.\<close>

definition read_weighted_edgelist :: "(nat \<times> nat \<times> real) list \<Rightarrow> digraph" where
  "read_weighted_edgelist es = fold add_edge es []"

definition nx_nodes :: "digraph \<Rightarrow> nat list" where
  "nx_nodes G = map fst G"

definition nx_edges :: "digraph \<Rightarrow> (nat \<times> nat \<times> real) list" where
  "nx_edges G = concat (map (\<lambda>(u, nbrs). map (\<lambda>(v, w). (u, v, w)) nbrs) G)"

subsection \<open>Node features\<close>

definition eye :: "nat \<Rightarrow> tensor" where
  "eye n = map (\<lambda>i. map (\<lambda>j. if i = j then 1 else 0) [0..<n]) [0..<n]"

definition zeros :: "nat \<Rightarrow> nat \<Rightarrow> tensor" where
  "zeros r c = replicate r (replicate c 0)"

text \<open>
  \<^verbatim>\<open>make_node_feature\<close>: \<^verbatim>\<open>torch.zeros\<close> raises its \<^verbatim>\<open>RuntimeError\<close> on a negative
  size, and \<^verbatim>\<open>t2[:, n_features-1]\<close> raises an \<^verbatim>\<open>IndexError\<close> when \<^verbatim>\<open>t2\<close> has no column.
\<close>

definition make_node_feature :: "nat \<Rightarrow> nat \<Rightarrow> error + tensor" where
  "make_node_feature nn n_features =
     (let t1 = eye n_features in
      if nn < n_features then Inl TorchError
      else
        let t2 = zeros (nn - n_features) n_features in
        if n_features = 0 then Inl IndexError
        else
          let t2 = map (\<lambda>row. row[n_features - 1 := 1]) t2
          in Inr (t1 @ t2))"

subsection \<open>The last node id and the padding\<close>

text \<open>\<^verbatim>\<open>sorted(list(Di_G.nodes))[-1]\<close>: the last element of the sorted node list,
  an \<^verbatim>\<open>IndexError\<close> on the empty list.\<close>

definition sorted_last :: "nat list \<Rightarrow> error + nat" where
  "sorted_last xs = (if xs = [] then Inl IndexError else Inr (last (sort xs)))"

definition pad_nodes :: "nat \<Rightarrow> digraph \<Rightarrow> digraph" where
  "pad_nodes last_id G =
     fold (\<lambda>i G. if \<not> has_node G i then add_node i G else G) [0..<last_id] G"

subsection \<open>Weights as float32\<close>

text \<open>
  The weights of the digraph are the Python floats parsed from the file.
  \<^verbatim>\<open>from_networkx\<close> stores them in a tensor of torch's default type, float32: each
  weight is rounded to the nearest number with a significand of 24 bits, ties to the
  even significand (exponents from -126 to 127, with the spacing of the lowest exponent
  below it). A weight too large for float32 becomes infinite in torch; the model has no
  such value and is not meant for these weights.
\<close>

definition pow2 :: "int \<Rightarrow> real" where
  "pow2 e = (if 0 \<le> e then 2 ^ nat e else 1 / 2 ^ nat (- e))"

definition round_half_even :: "real \<Rightarrow> int" where
  "round_half_even y =
     (let f = \<lfloor>y\<rfloor>; r = y - of_int f
      in if r < 1 / 2 then f else if 1 / 2 < r then f + 1 else if even f then f else f + 1)"

definition float32_exponent :: "real \<Rightarrow> int" where
  "float32_exponent x =
     (case find (\<lambda>e. \<bar>x\<bar> < pow2 (e + 1)) [-126..127] of Some e \<Rightarrow> e | None \<Rightarrow> 127)"

definition float32 :: "real \<Rightarrow> real" where
  "float32 x =
     (let ulp = pow2 (float32_exponent x - 23)
      in of_int (round_half_even (x / ulp)) * ulp)"

subsection \<open>The construction loop body\<close>

text \<open>
  The body of the loop over the sample files, from the parsed edge list to the graph
  appended to \<^verbatim>\<open>graphs\<close>. The notebook passes the feature width 8 to
  \<^verbatim>\<open>make_node_feature\<close>; it is a parameter here. \<^verbatim>\<open>from_networkx\<close> takes the
  nodes and the edges of the digraph in their iteration order, with the weight, as a
  float32, as edge feature; the direction feature is 0 on these edges.
  \<^verbatim>\<open>add_edges(dst, src, ...)\<close> then appends one edge per existing edge, endpoints
  swapped, with the same stored weight and direction 1.
\<close>

definition build_graph :: "nat \<Rightarrow> (nat \<times> nat \<times> real) list \<Rightarrow> error + graph" where
  "build_graph n_features es =
     (let Di_G = read_weighted_edgelist es in
      case sorted_last (nx_nodes Di_G) of
        Inl err \<Rightarrow> Inl err
      | Inr last_id \<Rightarrow>
          let Di_G = pad_nodes last_id Di_G;
              number_of_nodes = length (nx_nodes Di_G);
              forward = map (\<lambda>(s, d, w). (s, d, float32 w, 0)) (nx_edges Di_G)
          in case make_node_feature number_of_nodes n_features of
               Inl err \<Rightarrow> Inl err
             | Inr h \<Rightarrow>
                 let mirrored = map (\<lambda>(s, d, w, dir). (d, s, w, 1)) forward
                 in Inr \<lparr>n_nodes = number_of_nodes, edges = forward @ mirrored, ndata_h = h\<rparr>)"

text \<open>Reading the edge list back from a graph, leaving out the mirrored edges
  (those whose direction flag is 1).\<close>

definition extract_edges :: "graph \<Rightarrow> (nat \<times> nat \<times> real) list" where
  "extract_edges G = map (\<lambda>(s, d, w, dir). (s, d, w)) (filter (\<lambda>e. e_direction e \<noteq> 1) (edges G))"

text \<open>Two notions used to state properties of the construction: the pair of endpoints
  of an input edge, and the set of node ids that occur in an edge list.\<close>

definition edge_key :: "nat \<times> nat \<times> real \<Rightarrow> nat \<times> nat" where
  "edge_key e = (fst e, fst (snd e))"

definition node_ids :: "(nat \<times> nat \<times> real) list \<Rightarrow> nat set" where
  "node_ids es = fst ` set es \<union> (fst \<circ> snd) ` set es"

text \<open>The representation invariant of the digraph dictionaries: keys occur once.\<close>

definition dg_inv :: "digraph \<Rightarrow> bool" where
  "dg_inv G = (distinct (map fst G) \<and> (\<forall>(u, nbrs) \<in> set G. distinct (map fst nbrs)))"

text \<open>A DGL graph only has edges between its own nodes (\<^verbatim>\<open>add_edges\<close> rejects others).\<close>

definition valid_graph :: "'a graph_scheme \<Rightarrow> bool" where
  "valid_graph g = (\<forall>e \<in> set (edges g). e_src e < n_nodes g \<and> e_dst e < n_nodes g)"

section \<open>Tensor operations\<close>

definition width :: "tensor \<Rightarrow> nat" where
  "width t = (case t of [] \<Rightarrow> 0 | r # _ \<Rightarrow> length r)"

text \<open>\<^verbatim>\<open>torch.sum(x, dim)\<close> over a stack of vectors of width \<open>D\<close>: the column sums.\<close>

definition vsum :: "nat \<Rightarrow> tensor \<Rightarrow> vec" where
  "vsum D vs = map (\<lambda>j. sum_list (map (\<lambda>r. r ! j) vs)) [0..<D]"

definition dot :: "vec \<Rightarrow> vec \<Rightarrow> real" where
  "dot a b = sum_list (map2 (*) a b)"

definition matvec :: "tensor \<Rightarrow> vec \<Rightarrow> vec" where
  "matvec W x = map (\<lambda>row. dot row x) W"

text \<open>\<^verbatim>\<open>nn.Linear\<close> with weight \<open>W\<close> (one row per output) and bias \<open>b\<close>.\<close>

definition linear :: "tensor \<Rightarrow> vec \<Rightarrow> vec \<Rightarrow> vec" where
  "linear W b x = map2 (+) (matvec W x) b"

definition relu :: "real \<Rightarrow> real" where
  "relu x = max 0 x"

definition leaky_relu :: "real \<Rightarrow> real" where
  "leaky_relu x = max 0 x + 0.01 * min 0 x"

text \<open>The remainder \<^verbatim>\<open>%\<close> on floats: the result has the sign of the divisor.\<close>

definition float_mod :: "real \<Rightarrow> real \<Rightarrow> real" where
  "float_mod a b = a - b * of_int \<lfloor>a / b\<rfloor>"

definition softmax :: "vec \<Rightarrow> vec" where
  "softmax xs = map (\<lambda>x. exp x / sum_list (map exp xs)) xs"

section \<open>Message passing of DGL\<close>

text \<open>
  The notebook hands its functions to three DGL entry points. Their behaviour is that of
  the DGL releases that have \<^verbatim>\<open>DGLGraph.from_networkx\<close> as a method:
  \<^item> \<^verbatim>\<open>apply_edges(f)\<close> calls \<open>f\<close> with the data of the source node, of the destination
    node and of the edge, for every edge, and adds the result to the edge data;
  \<^item> \<^verbatim>\<open>update_all(message_func, reduce_func)\<close> on a graph without edges changes
    nothing. Otherwise every node receives the messages of its incoming edges in its
    mailbox; \<open>reduce_func\<close> is called for the nodes whose mailbox is not empty and is
    skipped for the others, whose new feature is filled in by the initializer, which
    is zero, with the shape of the other results;
  \<^item> \<^verbatim>\<open>apply_nodes(f)\<close> calls \<open>f\<close> on the data of every node.
\<close>

definition mailbox ::
  "('n \<Rightarrow> 'n \<Rightarrow> 'e \<Rightarrow> 'm) \<Rightarrow> (nat \<times> nat \<times> 'e) list \<Rightarrow> 'n list \<Rightarrow> nat \<Rightarrow> 'm list" where
  "mailbox message_func es nd v =
     map (\<lambda>(s, d, x). message_func (nd ! s) (nd ! d) x) (filter (\<lambda>(s, d, x). d = v) es)"

definition update_all ::
  "('n \<Rightarrow> 'n \<Rightarrow> 'e \<Rightarrow> 'm) \<Rightarrow> ('n \<Rightarrow> 'm list \<Rightarrow> 'r) \<Rightarrow> 'r \<Rightarrow> nat \<Rightarrow> (nat \<times> nat \<times> 'e) list
     \<Rightarrow> 'n list \<Rightarrow> 'r list option" where
  "update_all message_func reduce_func init n es nd =
     (if es = [] then None
      else Some (map (\<lambda>v. let mb = mailbox message_func es nd v
                           in if mb = [] then init else reduce_func (nd ! v) mb) [0..<n]))"

definition apply_edges ::
  "('n \<Rightarrow> 'n \<Rightarrow> 'e \<Rightarrow> 'x) \<Rightarrow> (nat \<times> nat \<times> 'e) list \<Rightarrow> 'n list \<Rightarrow> (nat \<times> nat \<times> 'e \<times> 'x) list" where
  "apply_edges f es nd = map (\<lambda>(s, d, x). (s, d, x, f (nd ! s) (nd ! d) x)) es"

section \<open>BiDirectionalGCN\<close>

text \<open>The module as its constructor builds it: \<^verbatim>\<open>fc = nn.Linear(in_feats*3, out_feats)\<close>
  and the activation.\<close>

record bigcn =
  in_feats :: nat
  out_feats :: nat
  bi_fc_weight :: tensor
  bi_fc_bias :: vec
  bi_activation :: "real \<Rightarrow> real"

text \<open>The shapes the constructor gives to the weight and the bias.\<close>

definition bigcn_ok :: "bigcn \<Rightarrow> bool" where
  "bigcn_ok P = (length (bi_fc_weight P) = out_feats P
     \<and> (\<forall>r \<in> set (bi_fc_weight P). length r = in_feats P * 3)
     \<and> length (bi_fc_bias P) = out_feats P)"

definition bigcn_message_func :: "vec \<Rightarrow> vec \<Rightarrow> real \<times> real \<Rightarrow> vec \<times> real" where
  "bigcn_message_func src_h dst_h x =
     (case x of (weight, direction) \<Rightarrow> (map (\<lambda>a. a * weight) src_h, direction))"

definition bigcn_reduce_func :: "vec \<Rightarrow> (vec \<times> real) list \<Rightarrow> vec \<times> vec" where
  "bigcn_reduce_func node_h mb =
     (let D = width (map fst mb);
          h0 = vsum D (map (\<lambda>(m, direction). map (\<lambda>a. a * direction) m) mb);
          mb = map (\<lambda>(m, direction). (m, float_mod (direction + 1) 2)) mb;
          h1 = vsum D (map (\<lambda>(m, direction). map (\<lambda>a. a * direction) m) mb)
      in (h0, h1))"

definition bigcn_node_apply_func :: "bigcn \<Rightarrow> vec \<Rightarrow> vec \<times> vec \<Rightarrow> vec" where
  "bigcn_node_apply_func P node_h r =
     (case r of (h0, h1) \<Rightarrow>
        map (bi_activation P) (linear (bi_fc_weight P) (bi_fc_bias P) (node_h @ h0 @ h1)))"

text \<open>
  \<^verbatim>\<open>forward(g, h)\<close>. Storing \<open>h\<close> as node data needs one row per node
  (\<^verbatim>\<open>DGLError\<close>). On a graph without edges \<^verbatim>\<open>update_all\<close> writes no \<^verbatim>\<open>h0\<close>, and
  \<^verbatim>\<open>node_apply_func\<close> fails on the missing key. \<^verbatim>\<open>fc\<close> raises its \<^verbatim>\<open>RuntimeError\<close>
  when the rows do not have \<^verbatim>\<open>in_feats\<close> entries. The messages have the width of the
  rows of \<open>h\<close>, so the zero rows that stand for \<^verbatim>\<open>h0\<close> and \<^verbatim>\<open>h1\<close> at a node without
  incoming edge have \<^verbatim>\<open>in_feats\<close> entries whenever the pass returns.
\<close>

definition bigcn_forward :: "bigcn \<Rightarrow> 'a graph_scheme \<Rightarrow> tensor \<Rightarrow> error + tensor" where
  "bigcn_forward P g h =
     (if length h \<noteq> n_nodes g then Inl DGLError
      else case update_all bigcn_message_func bigcn_reduce_func
                  (replicate (in_feats P) 0, replicate (in_feats P) 0) (n_nodes g) (edges g) h of
             None \<Rightarrow> Inl KeyError
           | Some r \<Rightarrow>
               if \<exists>row \<in> set h. length row \<noteq> in_feats P then Inl TorchError
               else Inr (map2 (bigcn_node_apply_func P) h r))"

text \<open>The sum, over the edges into node \<open>v\<close> whose direction flag is \<open>dir\<close>, of the
  source embedding scaled by the edge weight; the zero vector when there is no such
  edge. It is used to state what the layer computes.\<close>

definition directed_sum :: "nat \<Rightarrow> 'a graph_scheme \<Rightarrow> tensor \<Rightarrow> nat \<Rightarrow> real \<Rightarrow> vec" where
  "directed_sum D g h v dir =
     vsum D (map (\<lambda>e. map (\<lambda>a. a * e_weight e) (h ! e_src e))
               (filter (\<lambda>e. e_dst e = v \<and> e_direction e = dir) (edges g)))"

section \<open>GATWithSelfLoop\<close>

text \<open>The four linear maps have no bias; \<^verbatim>\<open>attn_fc\<close> and \<^verbatim>\<open>self_attn_fc\<close> have one
  output, so each is the single row of its weight.\<close>

record gat =
  in_dim :: nat
  out_dim :: nat
  gat_fc :: tensor
  gat_attn_fc :: vec
  gat_self_fc :: tensor
  gat_self_attn_fc :: vec
  gat_activation :: "real \<Rightarrow> real"

text \<open>The shapes the constructor gives to the weights.\<close>

definition gat_ok :: "gat \<Rightarrow> bool" where
  "gat_ok P = (length (gat_fc P) = out_dim P \<and> (\<forall>r \<in> set (gat_fc P). length r = in_dim P)
     \<and> length (gat_self_fc P) = out_dim P \<and> (\<forall>r \<in> set (gat_self_fc P). length r = in_dim P)
     \<and> length (gat_attn_fc P) = 2 * out_dim P \<and> length (gat_self_attn_fc P) = out_dim P)"

text \<open>Node data after \<^verbatim>\<open>node_apply_func\<close>: \<^verbatim>\<open>z\<close>, \<^verbatim>\<open>z_self\<close> and \<^verbatim>\<open>e_self\<close>.\<close>

type_synonym gat_node = "vec \<times> vec \<times> real"

definition nd_z :: "gat_node \<Rightarrow> vec" where
  "nd_z nd = fst nd"

definition nd_z_self :: "gat_node \<Rightarrow> vec" where
  "nd_z_self nd = fst (snd nd)"

definition nd_e_self :: "gat_node \<Rightarrow> real" where
  "nd_e_self nd = snd (snd nd)"

definition gat_node_apply_func :: "gat \<Rightarrow> vec \<Rightarrow> gat_node" where
  "gat_node_apply_func P node_h =
     (let z_self = matvec (gat_self_fc P) node_h
      in (matvec (gat_fc P) node_h, z_self, leaky_relu (dot (gat_self_attn_fc P) z_self)))"

definition gat_edge_attention :: "gat \<Rightarrow> gat_node \<Rightarrow> gat_node \<Rightarrow> real \<times> real \<Rightarrow> real" where
  "gat_edge_attention P src dst x =
     (let z2 = nd_z src @ nd_z dst in leaky_relu (dot (gat_attn_fc P) z2))"

definition gat_message_func :: "gat_node \<Rightarrow> gat_node \<Rightarrow> (real \<times> real) \<times> real \<Rightarrow> vec \<times> real" where
  "gat_message_func src dst x = (nd_z src, snd x)"

text \<open>The attention weights of a node: the softmax over the logits in the mailbox
  followed by the node's own logit.\<close>

definition gat_alpha :: "(vec \<times> real) list \<Rightarrow> real \<Rightarrow> vec" where
  "gat_alpha mb e_self = softmax (map snd mb @ [e_self])"

definition gat_reduce_func :: "gat \<Rightarrow> gat_node \<Rightarrow> (vec \<times> real) list \<Rightarrow> vec" where
  "gat_reduce_func P nd mb =
     (let alpha = gat_alpha mb (nd_e_self nd);
          z_self = nd_z_self nd;
          hidden_dim = length z_self;
          z = map fst mb @ [z_self]
      in map (gat_activation P) (vsum hidden_dim (map2 (\<lambda>a zr. map (\<lambda>x. a * x) zr) alpha z)))"

text \<open>
  The attention weights \<^verbatim>\<open>alpha\<close> that \<^verbatim>\<open>reduce_func\<close> computes for node \<open>v\<close> during
  \<^verbatim>\<open>forward(g, h)\<close>, the self term last; none when \<^verbatim>\<open>reduce_func\<close> is not called
  for \<open>v\<close>.
\<close>

definition gat_attention :: "gat \<Rightarrow> 'a graph_scheme \<Rightarrow> tensor \<Rightarrow> nat \<Rightarrow> vec option" where
  "gat_attention P g h v =
     (let nd = map (gat_node_apply_func P) h;
          es = apply_edges (gat_edge_attention P) (edges g) nd;
          mb = mailbox gat_message_func es nd v
      in if mb = [] then None else Some (gat_alpha mb (nd_e_self (nd ! v))))"

text \<open>
  \<^verbatim>\<open>forward(g, h)\<close>. \<^verbatim>\<open>self_fc\<close> raises its \<^verbatim>\<open>RuntimeError\<close> when the rows of \<open>h\<close> do
  not have \<^verbatim>\<open>in_dim\<close> entries; with weights of the constructor's shapes nothing else
  can fail. On a graph without edges \<^verbatim>\<open>update_all\<close> changes nothing and the \<^verbatim>\<open>h\<close>
  popped at the end is the input. Otherwise the new \<^verbatim>\<open>h\<close> of a node without incoming
  edge is the zero row, of the width \<^verbatim>\<open>out_dim\<close> of the other rows.
\<close>

definition gat_forward :: "gat \<Rightarrow> 'a graph_scheme \<Rightarrow> tensor \<Rightarrow> error + tensor" where
  "gat_forward P g h =
     (if length h \<noteq> n_nodes g then Inl DGLError
      else if \<exists>row \<in> set h. length row \<noteq> in_dim P then Inl TorchError
      else
        let nd = map (gat_node_apply_func P) h;
            es = apply_edges (gat_edge_attention P) (edges g) nd
        in case update_all gat_message_func (gat_reduce_func P) (replicate (out_dim P) 0)
                  (n_nodes g) es nd of
             None \<Rightarrow> Inr h
           | Some r \<Rightarrow> Inr r)"

section \<open>Batches and the classifier\<close>

fun batch_edges :: "nat \<Rightarrow> graph list \<Rightarrow> edge list" where
  "batch_edges off [] = []"
| "batch_edges off (g # gs) =
     map (\<lambda>(s, d, x). (s + off, d + off, x)) (edges g) @ batch_edges (off + n_nodes g) gs"

text \<open>\<^verbatim>\<open>dgl.batch\<close>: the disjoint union, node ids of each member shifted by the number of
  nodes before it, node and edge features concatenated in member order.\<close>

definition batch :: "graph list \<Rightarrow> batched_graph" where
  "batch gs = \<lparr>n_nodes = sum_list (map n_nodes gs), edges = batch_edges 0 gs,
               ndata_h = concat (map ndata_h gs), batch_num_nodes = map n_nodes gs\<rparr>"

text \<open>The node features of the members of \<^verbatim>\<open>dgl.unbatch(g)\<close>.\<close>

fun unbatch_h :: "nat list \<Rightarrow> tensor \<Rightarrow> tensor list" where
  "unbatch_h [] h = []"
| "unbatch_h (n # ns) h = take n h # unbatch_h ns (drop n h)"

definition col_max :: "tensor \<Rightarrow> vec" where
  "col_max x = map (\<lambda>j. fold max (map (\<lambda>r. r ! j) (tl x)) (hd x ! j)) [0..<width x]"

definition col_mean :: "tensor \<Rightarrow> vec" where
  "col_mean x = map (\<lambda>s. s / real (length x)) (vsum (width x) x)"

text \<open>
  The body of the loop over the members in \<^verbatim>\<open>Classifier.forward\<close>. \<^verbatim>\<open>torch.mean\<close> of
  no rows is not an error (its value is not a number), but \<^verbatim>\<open>torch.max\<close> of no rows
  raises an exception, whose class depends on the torch release. The final
  \<^verbatim>\<open>view(1, -1)\<close> lays the rows out one after the other.
\<close>

definition readout :: "tensor \<Rightarrow> error + vec" where
  "readout hg =
     (let node_features = take 7 hg;
          mean = col_mean (drop 7 hg)
      in if drop 7 hg = [] then Inl TorchError
         else
           let max_values = col_max (drop 7 hg)
           in Inr (concat (node_features @ [mean] @ [max_values])))"

fun readouts :: "tensor list \<Rightarrow> error + tensor" where
  "readouts [] = Inr []"
| "readouts (hg # rest) =
     (case readout hg of
        Inl err \<Rightarrow> Inl err
      | Inr f \<Rightarrow> (case readouts rest of Inl err \<Rightarrow> Inl err | Inr fs \<Rightarrow> Inr (f # fs)))"

record classifier =
  layer1 :: bigcn
  layer2 :: gat
  fc1_weight :: tensor
  fc1_bias :: vec
  fc2_weight :: tensor
  fc2_bias :: vec
  hidden_dim :: nat

text \<open>The rows of \<^verbatim>\<open>tensor\<close>, one readout vector per member of the batch.\<close>

definition classifier_features :: "classifier \<Rightarrow> batched_graph \<Rightarrow> error + tensor" where
  "classifier_features P g =
     (case bigcn_forward (layer1 P) g (ndata_h g) of
        Inl err \<Rightarrow> Inl err
      | Inr h \<Rightarrow>
          (case gat_forward (layer2 P) g h of
             Inl err \<Rightarrow> Inl err
           | Inr h \<Rightarrow> readouts (unbatch_h (batch_num_nodes g) h)))"

text \<open>\<^verbatim>\<open>Classifier.forward\<close>: \<^verbatim>\<open>torch.cat\<close> of no tensor raises, and \<^verbatim>\<open>fc1\<close> expects
  rows of \<^verbatim>\<open>hidden_dim*9\<close> entries.\<close>

definition classifier_forward :: "classifier \<Rightarrow> batched_graph \<Rightarrow> error + tensor" where
  "classifier_forward P g =
     (case classifier_features P g of
        Inl err \<Rightarrow> Inl err
      | Inr features \<Rightarrow>
          if features = [] then Inl TorchError
          else if \<exists>row \<in> set features. length row \<noteq> hidden_dim P * 9 then Inl TorchError
          else Inr (map (\<lambda>x. linear (fc2_weight P) (fc2_bias P)
                           (map relu (linear (fc1_weight P) (fc1_bias P) x))) features))"


text \<open>
  What \<^verbatim>\<open>dgl.batch\<close> and the layers expect of a member graph, and what the construction
  loop provides: edges between its own nodes, at least one edge, and one feature row of
  width \<open>F\<close> per node.
\<close>

definition graph_ok :: "nat \<Rightarrow> graph \<Rightarrow> bool" where
  "graph_ok F g = (valid_graph g \<and> edges g \<noteq> [] \<and> length (ndata_h g) = n_nodes g
     \<and> (\<forall>r \<in> set (ndata_h g). length r = F))"

section \<open>Properties of the graph construction\<close>

subsection \<open>The digraph dictionaries\<close>

lemma dict_set_keys: "fst ` set (dict_set k v ps) = insert k (fst ` set ps)"
  by (induction ps) auto

lemma dict_set_distinct: "distinct (map fst ps) \<Longrightarrow> distinct (map fst (dict_set k v ps))"
  by (induction ps) (auto simp: dict_set_keys)

lemma dict_set_fresh: "k \<notin> set (map fst ps) \<Longrightarrow> dict_set k v ps = ps @ [(k, v)]"
  by (induction ps) auto

lemma add_node_keys: "map fst (add_node u G) = (if has_node G u then map fst G else map fst G @ [u])"
  by (simp add: add_node_def)

lemma add_node_inv: "dg_inv G \<Longrightarrow> dg_inv (add_node u G)"
  by (auto simp: dg_inv_def add_node_def has_node_def)

lemma add_node_edges: "nx_edges (add_node u G) = nx_edges G"
  by (simp add: add_node_def nx_edges_def)

lemma map_upd_keys: "map fst (map (\<lambda>(n, nbrs). if n = u then (n, f nbrs) else (n, nbrs)) G) = map fst G"
  by (induction G) auto

lemma map_upd_keys': "map (fst \<circ> (\<lambda>(n, nbrs). if n = u then (n, f nbrs) else (n, nbrs))) G = map fst G"
  using map_upd_keys[of u f G] by simp

lemma map_upd_keys_img: "(\<lambda>x. fst (case x of (n, nbrs) \<Rightarrow> if n = u then (n, f nbrs) else (n, nbrs))) ` set G = fst ` set G"
  using arg_cong[OF map_upd_keys[of u f G], of set] by (simp add: image_image)

lemma add_edge_nodes: "set (nx_nodes (add_edge (u, v, w) G)) = insert u (insert v (set (nx_nodes G)))"
  by (auto simp: add_edge_def nx_nodes_def map_upd_keys_img add_node_def has_node_def)

lemma add_edge_inv: "dg_inv G \<Longrightarrow> dg_inv (add_edge e G)"
proof -
  assume "dg_inv G"
  obtain u v w where e: "e = (u, v, w)" by (cases e) auto
  have i: "dg_inv (add_node v (add_node u G))" using \<open>dg_inv G\<close> by (simp add: add_node_inv)
  show ?thesis using i unfolding e add_edge_def dg_inv_def
    by (auto simp: map_upd_keys' dict_set_distinct split: if_splits)
qed

lemma nx_edges_Cons: "nx_edges ((n, nbrs) # G) = map (\<lambda>(v, w). (n, v, w)) nbrs @ nx_edges G"
  by (simp add: nx_edges_def)

lemma nx_edges_Nil: "nx_edges [] = []"
  by (simp add: nx_edges_def)

lemma edge_key_row: "edge_key ` set (map (\<lambda>(v, w). (n, v, w)) nbrs) = Pair n ` fst ` set nbrs"
  by (force simp: edge_key_def image_iff)

lemma nx_edges_upd_fresh:
  "distinct (map fst G) \<Longrightarrow> u \<in> set (map fst G) \<Longrightarrow> (u, v) \<notin> edge_key ` set (nx_edges G) \<Longrightarrow>
   mset (nx_edges (map (\<lambda>(n, nbrs). if n = u then (n, dict_set v w nbrs) else (n, nbrs)) G))
     = add_mset (u, v, w) (mset (nx_edges G))"
proof (induction G)
  case Nil then show ?case by simp
next
  case (Cons p G)
  obtain n nbrs where p: "p = (n, nbrs)" by (cases p)
  have k: "(u, v) \<notin> Pair n ` fst ` set nbrs" "(u, v) \<notin> edge_key ` set (nx_edges G)"
    using Cons.prems(3) unfolding p nx_edges_Cons set_append image_Un edge_key_row by auto
  show ?case
  proof (cases "n = u")
    case True
    have "v \<notin> set (map fst nbrs)" using k(1) True by auto
    moreover have "map (\<lambda>(n, nbrs). if n = u then (n, dict_set v w nbrs) else (n, nbrs)) G = G"
      using Cons.prems(1) p True by (intro map_idI) force
    ultimately show ?thesis using p True by (simp add: nx_edges_Cons dict_set_fresh)
  next
    case False
    then show ?thesis using Cons.IH Cons.prems(1,2) k(2) p by (simp add: nx_edges_Cons)
  qed
qed

lemma add_edge_fresh:
  assumes "dg_inv G" "(u, v) \<notin> edge_key ` set (nx_edges G)"
  shows "mset (nx_edges (add_edge (u, v, w) G)) = add_mset (u, v, w) (mset (nx_edges G))"
proof -
  let ?G = "add_node v (add_node u G)"
  have "dg_inv ?G" using assms(1) by (simp add: add_node_inv)
  then have d: "distinct (map fst ?G)" by (simp add: dg_inv_def)
  have m: "u \<in> set (map fst ?G)" by (auto simp: add_node_keys has_node_def)
  have f: "(u, v) \<notin> edge_key ` set (nx_edges ?G)" using assms(2) by (simp add: add_node_edges)
  show ?thesis unfolding add_edge_def using nx_edges_upd_fresh[OF d m f, of w]
    by (simp add: add_node_edges)
qed

lemma fold_add_edge_inv: "dg_inv G \<Longrightarrow> dg_inv (fold add_edge es G)"
  by (induction es arbitrary: G) (auto simp: add_edge_inv)

lemma fold_add_edge_mset:
  "dg_inv G \<Longrightarrow> distinct (map edge_key es) \<Longrightarrow> edge_key ` set es \<inter> edge_key ` set (nx_edges G) = {} \<Longrightarrow>
   mset (nx_edges (fold add_edge es G)) = mset (nx_edges G) + mset es"
proof (induction es arbitrary: G)
  case Nil then show ?case by simp
next
  case (Cons e es)
  obtain u v w where e: "e = (u, v, w)" by (cases e) auto
  have fr: "(u, v) \<notin> edge_key ` set (nx_edges G)" using Cons.prems(3) e by (auto simp: edge_key_def)
  have m: "mset (nx_edges (add_edge e G)) = add_mset e (mset (nx_edges G))"
    using add_edge_fresh[OF Cons.prems(1) fr] e by simp
  then have s: "set (nx_edges (add_edge e G)) = insert e (set (nx_edges G))"
    by (metis set_mset_add_mset_insert set_mset_mset)
  have "edge_key ` set es \<inter> edge_key ` set (nx_edges (add_edge e G)) = {}"
    using Cons.prems(2,3) by (auto simp: s)
  then show ?case using Cons.IH[OF add_edge_inv[OF Cons.prems(1)]] Cons.prems(2) m by simp
qed

lemma read_mset: "distinct (map edge_key es) \<Longrightarrow> mset (nx_edges (read_weighted_edgelist es)) = mset es"
  using fold_add_edge_mset[of "[]" es] by (simp add: read_weighted_edgelist_def dg_inv_def nx_edges_def)

lemma fold_add_edge_nodes:
  "set (nx_nodes (fold add_edge es G)) = set (nx_nodes G) \<union> fst ` set es \<union> (fst \<circ> snd) ` set es"
proof (induction es arbitrary: G)
  case Nil then show ?case by simp
next
  case (Cons e es)
  obtain u v w where e: "e = (u, v, w)" by (cases e) auto
  show ?case using Cons.IH[of "add_edge e G"] by (auto simp: e add_edge_nodes)
qed


lemma dict_set_set:
  "distinct (map fst ps) \<Longrightarrow> set (dict_set k v ps) = insert (k, v) {p \<in> set ps. fst p \<noteq> k}"
  by (induction ps) (auto simp: rev_image_eqI)

lemma nx_edges_set:
  "set (nx_edges G) = {(u, v, w). \<exists>nbrs. (u, nbrs) \<in> set G \<and> (v, w) \<in> set nbrs}"
  by (induction G) (auto simp: nx_edges_Cons nx_edges_Nil)

lemma upd_mem:
  "(a, nbrs') \<in> set (map (\<lambda>(n, nbrs). if n = u then (n, f nbrs) else (n, nbrs)) G)
     \<longleftrightarrow> (\<exists>nbrs. (a, nbrs) \<in> set G \<and> nbrs' = (if a = u then f nbrs else nbrs))"
proof (induction G)
  case Nil then show ?case by simp
next
  case (Cons p G)
  obtain n nb where p: "p = (n, nb)" by (cases p)
  show ?case unfolding p using Cons.IH by (cases "n = u") auto
qed

lemma add_edge_set:
  assumes "dg_inv G"
  shows "set (nx_edges (add_edge (u, v, w) G))
           = insert (u, v, w) {e \<in> set (nx_edges G). edge_key e \<noteq> (u, v)}"
proof -
  let ?G = "add_node v (add_node u G)"
  let ?f = "\<lambda>(n, nbrs). if n = u then (n, dict_set v w nbrs) else (n, nbrs)"
  have inv: "dg_inv ?G" using assms by (simp add: add_node_inv)
  have d: "\<And>a nbrs. (a, nbrs) \<in> set ?G \<Longrightarrow> distinct (map fst nbrs)"
    using inv unfolding dg_inv_def by blast
  have "u \<in> fst ` set ?G" by (auto simp: add_node_def has_node_def)
  then obtain nu where nu: "(u, nu) \<in> set ?G" by auto
  have "set (nx_edges (map ?f ?G)) = insert (u, v, w) {e \<in> set (nx_edges ?G). edge_key e \<noteq> (u, v)}"
  proof (intro set_eqI iffI)
    fix x assume xin: "x \<in> set (nx_edges (map ?f ?G))"
    obtain a b c where x: "x = (a, b, c)" by (cases x) auto
    from xin obtain nbrs where n: "(a, nbrs) \<in> set ?G"
        "(b, c) \<in> set (if a = u then dict_set v w nbrs else nbrs)"
      unfolding x nx_edges_set upd_mem by auto
    show "x \<in> insert (u, v, w) {e \<in> set (nx_edges ?G). edge_key e \<noteq> (u, v)}"
    proof (cases "a = u")
      case True
      then have "(b, c) = (v, w) \<or> ((b, c) \<in> set nbrs \<and> b \<noteq> v)"
        using n(2) dict_set_set[OF d[OF n(1)], of v w] by auto
      then show ?thesis using n(1) True unfolding x nx_edges_set edge_key_def by auto
    next
      case False
      then show ?thesis using n unfolding x nx_edges_set edge_key_def by auto
    qed
  next
    fix x assume h: "x \<in> insert (u, v, w) {e \<in> set (nx_edges ?G). edge_key e \<noteq> (u, v)}"
    show "x \<in> set (nx_edges (map ?f ?G))"
    proof (cases "x = (u, v, w)")
      case True
      have "(v, w) \<in> set (dict_set v w nu)" using dict_set_set[OF d[OF nu]] by simp
      then show ?thesis unfolding True nx_edges_set upd_mem using nu by auto
    next
      case False
      obtain a b c where x: "x = (a, b, c)" by (cases x) auto
      from h False obtain nbrs where i: "(a, nbrs) \<in> set ?G" "(b, c) \<in> set nbrs"
        and k: "(a, b) \<noteq> (u, v)"
        unfolding x nx_edges_set edge_key_def by auto
      have "(b, c) \<in> set (if a = u then dict_set v w nbrs else nbrs)"
        using i(2) k dict_set_set[OF d[OF i(1)], of v w] by auto
      then show ?thesis unfolding x nx_edges_set upd_mem using i(1) by (cases "a = u") force+
    qed
  qed
  then show ?thesis by (simp add: add_edge_def add_node_edges)
qed

lemma read_snoc: "read_weighted_edgelist (es @ [e]) = add_edge e (read_weighted_edgelist es)"
  by (simp add: read_weighted_edgelist_def)

lemma read_inv: "dg_inv (read_weighted_edgelist es)"
  unfolding read_weighted_edgelist_def by (rule fold_add_edge_inv) (simp add: dg_inv_def)

lemma read_set:
  "inj_on edge_key (set es) \<Longrightarrow> set (nx_edges (read_weighted_edgelist es)) = set es"
proof (induction es rule: rev_induct)
  case Nil then show ?case by (simp add: read_weighted_edgelist_def nx_edges_Nil)
next
  case (snoc e es)
  obtain u v w where e: "e = (u, v, w)" by (cases e) auto
  have ih: "set (nx_edges (read_weighted_edgelist es)) = set es"
    using snoc by (auto simp: inj_on_def)
  have k: "\<And>x. x \<in> set es \<Longrightarrow> edge_key x = (u, v) \<Longrightarrow> x = e"
    using snoc.prems e by (auto simp: inj_on_def edge_key_def)
  show ?case unfolding read_snoc e add_edge_set[OF read_inv] ih using k e by auto
qed

lemma read_nodes:
  "set (nx_nodes (read_weighted_edgelist es)) = fst ` set es \<union> (fst \<circ> snd) ` set es"
  unfolding read_weighted_edgelist_def fold_add_edge_nodes by (simp add: nx_nodes_def)

lemma pad_fold_edges:
  "nx_edges (fold (\<lambda>i G. if \<not> has_node G i then add_node i G else G) is G) = nx_edges G"
  by (induction "is" arbitrary: G) (auto simp: add_node_edges)

lemma pad_fold_nodes:
  "set (nx_nodes (fold (\<lambda>i G. if \<not> has_node G i then add_node i G else G) is G))
     = set (nx_nodes G) \<union> set is"
  by (induction "is" arbitrary: G) (auto simp: add_node_def has_node_def nx_nodes_def)

lemma pad_fold_distinct:
  "distinct (nx_nodes G) \<Longrightarrow>
   distinct (nx_nodes (fold (\<lambda>i G. if \<not> has_node G i then add_node i G else G) is G))"
  by (induction "is" arbitrary: G) (auto simp: add_node_def has_node_def nx_nodes_def)

lemma pad_nodes_edges: "nx_edges (pad_nodes l G) = nx_edges G"
  by (simp add: pad_nodes_def pad_fold_edges)

lemma sorted_le_last: "sorted xs \<Longrightarrow> y \<in> set xs \<Longrightarrow> y \<le> last (xs :: nat list)"
  by (induction xs) auto

lemma sorted_last_Inr: "sorted_last xs = Inr l \<Longrightarrow> xs \<noteq> [] \<and> l = Max (set xs)"
proof -
  assume a: "sorted_last xs = Inr l"
  then have ne: "xs \<noteq> []" and l: "l = last (sort xs)"
    by (auto simp: sorted_last_def split: if_splits)
  have ne': "sort xs \<noteq> []" using ne by (metis length_0_conv length_sort)
  have "l \<in> set xs" using l last_in_set[OF ne'] by simp
  moreover have "\<And>y. y \<in> set xs \<Longrightarrow> y \<le> l"
    unfolding l by (rule sorted_le_last) simp_all
  ultimately have "Max (set xs) = l" by (intro Max_eqI) auto
  then show ?thesis using ne by simp
qed

lemma make_node_feature_Inr:
  assumes "make_node_feature nn F = Inr h"
  shows "0 < F" "F \<le> nn" "h = eye F @ replicate (nn - F) ((replicate F 0)[F - 1 := 1])"
  using assms by (auto simp: make_node_feature_def zeros_def Let_def split: if_splits)

lemma make_node_feature_rows:
  assumes "make_node_feature nn F = Inr h"
  shows "length h = nn"
    and "v < nn \<Longrightarrow> length (h ! v) = F"
    and "v < nn \<Longrightarrow> k < F \<Longrightarrow> h ! v ! k = (if k = (if v < F then v else F - 1) then 1 else 0)"
proof -
  note m = make_node_feature_Inr[OF assms]
  show "length h = nn" using m by (simp add: eye_def)
  show "v < nn \<Longrightarrow> length (h ! v) = F" using m by (simp add: eye_def nth_append)
  show "v < nn \<Longrightarrow> k < F \<Longrightarrow> h ! v ! k = (if k = (if v < F then v else F - 1) then 1 else 0)"
    using m by (auto simp: eye_def nth_append)
qed

lemma padded_length:
  assumes "sorted_last (nx_nodes (read_weighted_edgelist es)) = Inr l"
  shows "length (nx_nodes (pad_nodes l (read_weighted_edgelist es))) = Suc l"
proof -
  let ?D = "read_weighted_edgelist es"
  from sorted_last_Inr[OF assms] have ne: "nx_nodes ?D \<noteq> []" and l: "l = Max (set (nx_nodes ?D))"
    by auto
  have lin: "l \<in> set (nx_nodes ?D)" unfolding l using ne by (intro Max_in) auto
  have le: "\<And>y. y \<in> set (nx_nodes ?D) \<Longrightarrow> y \<le> l" unfolding l by (intro Max_ge) auto
  have d: "distinct (nx_nodes ?D)" using read_inv[of es] by (simp add: dg_inv_def nx_nodes_def)
  have "set (nx_nodes (pad_nodes l ?D)) = set (nx_nodes ?D) \<union> {0..<l}"
    by (simp add: pad_nodes_def pad_fold_nodes)
  also have "\<dots> = {0..l}" using lin le by (auto simp: le_less)
  finally have s: "set (nx_nodes (pad_nodes l ?D)) = {0..l}" .
  have "distinct (nx_nodes (pad_nodes l ?D))"
    unfolding pad_nodes_def by (rule pad_fold_distinct[OF d])
  then have "length (nx_nodes (pad_nodes l ?D)) = card {0..l}"
    using s distinct_card by metis
  then show ?thesis by simp
qed

lemma build_graph_Inr:
  assumes "build_graph F es = Inr G"
  shows "es \<noteq> []"
    and "n_nodes G = Suc (Max (node_ids es))"
    and "make_node_feature (n_nodes G) F = Inr (ndata_h G)"
    and "edges G = map (\<lambda>(s, d, w). (s, d, float32 w, 0)) (nx_edges (read_weighted_edgelist es))
                 @ map (\<lambda>(s, d, w). (d, s, float32 w, 1)) (nx_edges (read_weighted_edgelist es))"
proof -
  let ?D = "read_weighted_edgelist es"
  from assms obtain l where l: "sorted_last (nx_nodes ?D) = Inr l"
    by (auto simp: build_graph_def Let_def split: sum.splits)
  from assms l obtain h where h: "make_node_feature (length (nx_nodes (pad_nodes l ?D))) F = Inr h"
    by (auto simp: build_graph_def Let_def split: sum.splits)
  have G: "G = \<lparr>n_nodes = length (nx_nodes (pad_nodes l ?D)),
                edges = map (\<lambda>(s, d, w). (s, d, float32 w, 0)) (nx_edges (pad_nodes l ?D))
                  @ map (\<lambda>(s, d, w, dir). (d, s, w, 1))
                      (map (\<lambda>(s, d, w). (s, d, float32 w, 0::real)) (nx_edges (pad_nodes l ?D))),
                ndata_h = h\<rparr>"
    using assms l h by (auto simp: build_graph_def Let_def)
  have f1: "n_nodes G = length (nx_nodes (pad_nodes l ?D))" by (subst G) simp
  have f2: "ndata_h G = h" by (subst G) simp
  have f3: "edges G = map (\<lambda>(s, d, w). (s, d, float32 w, 0)) (nx_edges (pad_nodes l ?D))
                  @ map (\<lambda>(s, d, w, dir). (d, s, w, 1))
                      (map (\<lambda>(s, d, w). (s, d, float32 w, 0::real)) (nx_edges (pad_nodes l ?D)))"
    by (subst G) simp
  from sorted_last_Inr[OF l] have ne: "nx_nodes ?D \<noteq> []" and lm: "l = Max (set (nx_nodes ?D))"
    by auto
  show "es \<noteq> []" using ne by (auto simp: read_weighted_edgelist_def nx_nodes_def)
  have e1: "n_nodes G = Suc l" using f1 padded_length[OF l] by simp
  have e2: "l = Max (node_ids es)" unfolding lm read_nodes node_ids_def ..
  show "n_nodes G = Suc (Max (node_ids es))" unfolding e1 e2 ..
  show "make_node_feature (n_nodes G) F = Inr (ndata_h G)" unfolding f1 f2 by (rule h)
  have "map (\<lambda>(s, d, w, dir). (d, s, w, 1::real)) (map (\<lambda>(s, d, w). (s, d, float32 w, 0::real)) xs)
        = map (\<lambda>(s, d, w). (d, s, float32 w, 1)) xs" for xs :: "(nat \<times> nat \<times> real) list"
    by (induction xs) auto
  then show "edges G = map (\<lambda>(s, d, w). (s, d, float32 w, 0)) (nx_edges ?D)
                 @ map (\<lambda>(s, d, w). (d, s, float32 w, 1)) (nx_edges ?D)"
    unfolding f3 by (simp add: pad_nodes_edges)
qed

text \<open>The graph, from the three steps of the construction evaluated one by one.\<close>

lemma build_graph_eval:
  assumes "sorted_last (nx_nodes (read_weighted_edgelist es)) = Inr l"
    and "pad_nodes l (read_weighted_edgelist es) = D"
    and "make_node_feature (length (nx_nodes D)) F = Inr h"
  shows "build_graph F es
       = Inr \<lparr>n_nodes = length (nx_nodes D),
              edges = map (\<lambda>(s, d, w). (s, d, float32 w, 0)) (nx_edges D)
                    @ map (\<lambda>(s, d, w). (d, s, float32 w, 1)) (nx_edges D),
              ndata_h = h\<rparr>"
proof -
  have "map (\<lambda>(s, d, w, dir). (d, s, w, 1::real)) (map (\<lambda>(s, d, w). (s, d, float32 w, 0::real)) xs)
        = map (\<lambda>(s, d, w). (d, s, float32 w, 1)) xs" for xs :: "(nat \<times> nat \<times> real) list"
    by (induction xs) auto
  then show ?thesis by (simp add: build_graph_def Let_def assms)
qed

subsection \<open>Rounding to float32\<close>

lemma pow2_powr: "pow2 e = 2 powr (of_int e)"
proof (cases "0 \<le> e")
  case True
  then have "(2::real) powr (of_int e) = 2 ^ nat e"
    by (metis of_int_of_nat_eq of_nat_nat powr_realpow zero_less_numeral)
  then show ?thesis using True by (simp add: pow2_def)
next
  case False
  then have "(2::real) powr (of_int (- e)) = 2 ^ nat (- e)"
    by (metis less_eq_int_code(1) minus_le_iff nle_le of_int_of_nat_eq of_nat_nat powr_realpow zero_less_numeral neg_0_le_iff_le)
  then have a: "inverse ((2::real) powr (of_int (- e))) = 1 / 2 ^ nat (- e)"
    by (simp only: inverse_eq_divide)
  have "(2::real) powr (of_int e) = inverse (2 powr (of_int (- e)))"
    by (simp add: powr_minus)
  then have "(2::real) powr (of_int e) = 1 / 2 ^ nat (- e)"
    by (simp only: a)
  then show ?thesis using False by (simp add: pow2_def)
qed

lemma pow2_mono: "j \<le> k \<Longrightarrow> pow2 j \<le> pow2 k"
  by (simp add: pow2_powr)

lemma find_upto_first:
  "a \<le> e \<Longrightarrow> e \<le> b \<Longrightarrow> P e \<Longrightarrow> (\<And>k. a \<le> k \<Longrightarrow> k < e \<Longrightarrow> \<not> P k) \<Longrightarrow>
   find P [a..b] = Some e"
proof (induction "nat (e - a)" arbitrary: a)
  case 0
  then have "a = e" by simp
  then show ?case using 0 by (simp add: upto_rec1)
next
  case (Suc n)
  then have lt: "a < e" by linarith
  have "find P [a + 1..b] = Some e"
    using Suc(1)[of "a + 1"] Suc(2-) lt by auto
  moreover have "\<not> P a" using Suc(6)[of a] lt by simp
  ultimately show ?case using lt Suc(4) by (simp add: upto_rec1)
qed

lemma float32_exponent_eq:
  assumes "- 126 \<le> e" and "e \<le> 127" and "pow2 e \<le> \<bar>x\<bar>" and "\<bar>x\<bar> < pow2 (e + 1)"
  shows "float32_exponent x = e"
proof -
  have "\<not> \<bar>x\<bar> < pow2 (k + 1)" if "k < e" for k
    using pow2_mono[of "k + 1" e] that assms(3) by simp
  then have "find (\<lambda>e. \<bar>x\<bar> < pow2 (e + 1)) [- 126..127] = Some e"
    using assms by (intro find_upto_first) auto
  then show ?thesis by (simp add: float32_exponent_def)
qed

text \<open>Small whole numbers are float32 numbers; one tenth is not.\<close>

lemma float32_values:
  "float32 1 = 1" "float32 2 = 2" "float32 3 = 3" "float32 5 = 5" "float32 6 = 6"
  "float32 (1 / 10) = 13421773 / 134217728"
proof -
  have e: "float32_exponent 1 = 0" "float32_exponent 2 = 1" "float32_exponent 3 = 1"
    "float32_exponent 5 = 2" "float32_exponent 6 = 2" "float32_exponent (1 / 10) = - 4"
    by (rule float32_exponent_eq; simp add: pow2_def)+
  show "float32 1 = 1" "float32 2 = 2" "float32 3 = 3" "float32 5 = 5" "float32 6 = 6"
    by (simp_all add: float32_def e pow2_def round_half_even_def Let_def)
  have "\<lfloor>(67108864 / 5 :: real)\<rfloor> = 13421772" by (simp add: floor_eq_iff)
  then show "float32 (1 / 10) = 13421773 / 134217728"
    by (simp add: float32_def e pow2_def round_half_even_def Let_def)
qed

subsection \<open>Edges of the built graph\<close>

lemma build_graph_example:
  "build_graph 2 [(0, 1, 2), (1, 2, 1)]
     = Inr \<lparr>n_nodes = 3, edges = [(0, 1, 2, 0), (1, 2, 1, 0), (1, 0, 2, 1), (2, 1, 1, 1)],
            ndata_h = [[1, 0], [0, 1], [0, 1]]\<rparr>"
proof -
  have a: "sorted_last (nx_nodes (read_weighted_edgelist [(0, 1, 2), (1, 2, 1)])) = Inr 2"
    by code_simp
  have b: "pad_nodes 2 (read_weighted_edgelist [(0, 1, 2), (1, 2, 1)])
         = [(0, [(1, 2)]), (1, [(2, 1)]), (2, [])]"
    by code_simp
  have c: "make_node_feature (length (nx_nodes [(0, [(1, 2)]), (1, [(2, 1)]), (2, [])])) 2
         = Inr [[1, 0], [0, 1], [0, 1]]"
    by code_simp
  show ?thesis
    unfolding build_graph_eval[OF a b c] by (simp add: nx_nodes_def nx_edges_def float32_values)
qed

lemma build_graph_duplicate:
  "build_graph 8 [(0, 7, 2), (0, 7, 3)]
     = Inr \<lparr>n_nodes = 8, edges = [(0, 7, 3, 0), (7, 0, 3, 1)], ndata_h = eye 8\<rparr>"
proof -
  have a: "sorted_last (nx_nodes (read_weighted_edgelist [(0, 7, 2), (0, 7, 3)])) = Inr 7"
    by code_simp
  have b: "pad_nodes 7 (read_weighted_edgelist [(0, 7, 2), (0, 7, 3)])
         = [(0, [(7, 3)]), (7, []), (1, []), (2, []), (3, []), (4, []), (5, []), (6, [])]"
    by code_simp
  have c: "make_node_feature
             (length (nx_nodes [(0, [(7, 3)]), (7, []), (1, []), (2, []), (3, []), (4, []),
                                (5, []), (6, [])])) 8
         = Inr (eye 8)"
    by code_simp
  show ?thesis
    unfolding build_graph_eval[OF a b c] by (simp add: nx_nodes_def nx_edges_def float32_values)
qed

text \<open>
  C4, as stated, at an edge list that names the pair (0, 7) twice: the digraph keeps one
  edge per ordered pair of nodes, with the weight read last, so the graph built with the
  notebook's feature width has two directed edges, not four, and no edge of weight 2.
\<close>

theorem build_graph_edge_count_counterexample:
  "map_sum id edges (build_graph 8 [(0, 7, 2), (0, 7, 3)]) = Inr [(0, 7, 3, 0), (7, 0, 3, 1)]
   \<and> length [(0, 7, 3, 0 :: real), (7, 0, 3, 1)] \<noteq> 2 * length [(0, 7, 2 :: real), (0, 7, 3)]"
  by (simp add: build_graph_duplicate)

text \<open>
  C4, amended: for every edge list whose ordered pairs (source, destination) are pairwise
  distinct and from which the construction succeeds, the graph has exactly twice as
  many directed edges as the list; its edges are, as a multiset, the forward edges
  \<open>(s, d, w')\<close> with direction 0 together with the mirrored edges \<open>(d, s, w')\<close> with
  direction 1, where \<open>w'\<close> is the weight \<open>w\<close> of the input edge as the graph stores it (its
  float32 value), so each input edge has exactly one forward and exactly one mirrored
  edge, both with the same stored weight. When the weights of the list are float32
  numbers, the stored weight is the weight of the list.
\<close>

theorem build_graph_edge_count:
  assumes "build_graph F es = Inr G" and "distinct (map edge_key es)"
  shows "length (edges G) = 2 * length es
       \<and> mset (edges G) = mset (map (\<lambda>(s, d, w). (s, d, float32 w, 0)) es)
                          + mset (map (\<lambda>(s, d, w). (d, s, float32 w, 1)) es)
       \<and> (\<forall>(s, d, w) \<in> set es. count_list (edges G) (s, d, float32 w, 0) = 1
                               \<and> count_list (edges G) (d, s, float32 w, 1) = 1)
       \<and> ((\<forall>(s, d, w) \<in> set es. float32 w = w) \<longrightarrow>
            mset (edges G) = mset (map (\<lambda>(s, d, w). (s, d, w, 0)) es)
                             + mset (map (\<lambda>(s, d, w). (d, s, w, 1)) es))"
proof -
  note b = build_graph_Inr[OF assms(1)]
  let ?X = "nx_edges (read_weighted_edgelist es)"
  let ?f0 = "\<lambda>(s, d, w). (s, d, float32 w, 0 :: real)"
  let ?f1 = "\<lambda>(s, d, w). (d, s, float32 w, 1 :: real)"
  have ms: "mset ?X = mset es" by (rule read_mset[OF assms(2)])
  have len: "length ?X = length es" using ms by (metis size_mset)
  have d: "distinct es" using assms(2) by (rule distinct_map[THEN iffD1, THEN conjunct1])
  have ik: "inj_on edge_key (set es)" using assms(2) by (simp add: distinct_map)
  have m: "mset (edges G) = mset (map ?f0 es) + mset (map ?f1 es)"
    unfolding b(4) mset_append mset_map ms ..
  have i0: "inj_on ?f0 (set es)"
  proof (rule inj_onI)
    fix x y assume "x \<in> set es" "y \<in> set es" "?f0 x = ?f0 y"
    then have "edge_key x = edge_key y" by (auto simp: edge_key_def split_def)
    then show "x = y" using ik \<open>x \<in> set es\<close> \<open>y \<in> set es\<close> by (auto dest: inj_onD)
  qed
  have i1: "inj_on ?f1 (set es)"
  proof (rule inj_onI)
    fix x y assume "x \<in> set es" "y \<in> set es" "?f1 x = ?f1 y"
    then have "edge_key x = edge_key y" by (auto simp: edge_key_def split_def)
    then show "x = y" using ik \<open>x \<in> set es\<close> \<open>y \<in> set es\<close> by (auto dest: inj_onD)
  qed
  have cl: "count_list (edges G) y = count_list (map ?f0 es) y + count_list (map ?f1 es) y" for y
    using arg_cong[OF m, of "\<lambda>M. count M y"] by (simp only: count_union count_mset)
  have c: "count_list (edges G) (s, d, float32 w, 0) = 1
         \<and> count_list (edges G) (d, s, float32 w, 1) = 1"
    if "(s, d, w) \<in> set es" for s d w
  proof -
    have o: "count_list es (s, d, w) = 1"
      using d that by (metis count_mset distinct_count_atmost_1)
    have "count_list (map ?f0 es) (s, d, float32 w, 0) = 1"
      using count_list_inj_map[OF i0 that] o by simp
    moreover have "count_list (map ?f1 es) (d, s, float32 w, 1) = 1"
      using count_list_inj_map[OF i1 that] o by simp
    moreover have "count_list (map ?f1 es) (s, d, float32 w, 0) = 0"
      by (rule count_notin) auto
    moreover have "count_list (map ?f0 es) (d, s, float32 w, 1) = 0"
      by (rule count_notin) auto
    ultimately show ?thesis unfolding cl by simp
  qed
  have x: "mset (edges G) = mset (map (\<lambda>(s, d, w). (s, d, w, 0)) es)
                             + mset (map (\<lambda>(s, d, w). (d, s, w, 1)) es)"
    if "\<forall>(s, d, w) \<in> set es. float32 w = w"
  proof -
    have e0: "map ?f0 es = map (\<lambda>(s, d, w). (s, d, w, 0)) es"
      using that by (intro map_cong) auto
    have e1: "map ?f1 es = map (\<lambda>(s, d, w). (d, s, w, 1)) es"
      using that by (intro map_cong) auto
    show ?thesis unfolding m e0 e1 ..
  qed
  show ?thesis using b(4) len m c x by auto
qed

theorem build_graph_edge_count_witness:
  "distinct (map edge_key [(0, 1, 2 :: real), (1, 2, 1)])
   \<and> length (edges \<lparr>n_nodes = 3, edges = [(0, 1, 2, 0), (1, 2, 1, 0), (1, 0, 2, 1), (2, 1, 1, 1)],
                      ndata_h = [[1, 0], [0, 1], [0, 1]]\<rparr>)
       = 2 * length [(0 :: nat, 1 :: nat, 2 :: real), (1, 2, 1)]
   \<and> count_list (edges \<lparr>n_nodes = 3, edges = [(0, 1, 2, 0), (1, 2, 1, 0), (1, 0, 2, 1), (2, 1, 1, 1)],
                          ndata_h = [[1, 0], [0, 1], [0, 1]]\<rparr>) (2, 1, float32 1, 1) = 1"
proof -
  have d: "distinct (map edge_key [(0, 1, 2 :: real), (1, 2, 1)])" by (simp add: edge_key_def)
  show ?thesis using d build_graph_edge_count[OF build_graph_example d] by simp
qed

subsection \<open>Node features of the built graph\<close>

text \<open>
  C5: when the construction succeeds, the graph has one node per id up to the largest id
  of the edge list, the feature width is positive and at most the node count, the
  feature matrix has one row of that width per node, and the only entry of row \<open>v\<close> that
  is 1 is entry \<open>v\<close> for the first \<open>F\<close> nodes and the last entry for the others; all other
  entries are 0. For the edge list [(0,1,2.0),(1,2,1.0)] and width 2 the graph has 3
  nodes and the rows [[1,0],[0,1],[0,1]].
\<close>

theorem node_features_one_hot:
  assumes "build_graph F es = Inr G"
  shows "n_nodes G = Suc (Max (node_ids es)) \<and> 0 < F \<and> F \<le> n_nodes G
       \<and> length (ndata_h G) = n_nodes G
       \<and> (\<forall>v < n_nodes G. length (ndata_h G ! v) = F
            \<and> (\<forall>k < F. ndata_h G ! v ! k = (if k = (if v < F then v else F - 1) then 1 else 0)))
       \<and> map_sum id (\<lambda>G. (n_nodes G, ndata_h G)) (build_graph 2 [(0, 1, 2), (1, 2, 1)])
           = Inr (3, [[1, 0], [0, 1], [0, 1]])"
proof -
  note b = build_graph_Inr[OF assms]
  note r = make_node_feature_rows[OF b(3)]
  note m = make_node_feature_Inr[OF b(3)]
  have c: "map_sum id (\<lambda>G. (n_nodes G, ndata_h G)) (build_graph 2 [(0, 1, 2), (1, 2, 1)])
           = Inr (3, [[1, 0], [0, 1], [0, 1]])"
    unfolding build_graph_example by simp
  show ?thesis using b(2) m(1,2) r c by simp
qed

theorem node_features_one_hot_witness:
  "build_graph 2 [(0, 1, 2), (1, 2, 1)]
     = Inr \<lparr>n_nodes = 3, edges = [(0, 1, 2, 0), (1, 2, 1, 0), (1, 0, 2, 1), (2, 1, 1, 1)],
            ndata_h = [[1, 0], [0, 1], [0, 1]]\<rparr>
   \<and> (3 :: nat) = Suc (Max (node_ids [(0, 1, 2), (1, 2, 1)]))
   \<and> length [[1, 0], [0, 1], [0, 1 :: real]] = 3"
  using node_features_one_hot[OF build_graph_example] build_graph_example by simp

subsection \<open>Reading the edge list back\<close>

text \<open>
  C8, as stated, at two edge lists. With two weights for the pair (1, 8), only the
  weight read last is in the graph. With the single edge (0, 7, 0.1), the weight read
  back is the float32 nearest to one tenth, 13421773/134217728. Neither time are the
  edges read back the original edge set.
\<close>

theorem extract_edges_roundtrip_counterexample:
  "map_sum id extract_edges (build_graph 8 [(1, 8, 5), (1, 8, 6)]) = Inr [(1, 8, 6)]
   \<and> set [(1, 8, 6 :: real)] \<noteq> set [(1 :: nat, 8 :: nat, 5 :: real), (1, 8, 6)]
   \<and> map_sum id extract_edges (build_graph 8 [(0, 7, 1 / 10)])
       = Inr [(0, 7, 13421773 / 134217728)]
   \<and> set [(0, 7, 13421773 / 134217728 :: real)] \<noteq> set [(0 :: nat, 7 :: nat, 1 / 10 :: real)]"
proof -
  have a: "sorted_last (nx_nodes (read_weighted_edgelist [(1, 8, 5), (1, 8, 6)])) = Inr 8"
    by code_simp
  have b: "pad_nodes 8 (read_weighted_edgelist [(1, 8, 5), (1, 8, 6)])
         = [(1, [(8, 6)]), (8, []), (0, []), (2, []), (3, []), (4, []), (5, []), (6, []), (7, [])]"
    by code_simp
  have c: "make_node_feature
             (length (nx_nodes [(1, [(8, 6)]), (8, []), (0, []), (2, []), (3, []), (4, []),
                                (5, []), (6, []), (7, [])])) 8
         = Inr (eye 8 @ [[0, 0, 0, 0, 0, 0, 0, 1]])"
    by code_simp
  have one: "map_sum id extract_edges (build_graph 8 [(1, 8, 5), (1, 8, 6)]) = Inr [(1, 8, 6)]"
    unfolding build_graph_eval[OF a b c]
    by (simp add: nx_edges_def float32_values extract_edges_def e_direction_def)
  have a': "sorted_last (nx_nodes (read_weighted_edgelist [(0, 7, 1 / 10)])) = Inr 7"
    by code_simp
  have b': "pad_nodes 7 (read_weighted_edgelist [(0, 7, 1 / 10)])
         = [(0, [(7, 1 / 10)]), (7, []), (1, []), (2, []), (3, []), (4, []), (5, []), (6, [])]"
    by code_simp
  have c': "make_node_feature
             (length (nx_nodes [(0, [(7, 1 / 10)]), (7, []), (1, []), (2, []), (3, []), (4, []),
                                (5, []), (6, [])])) 8
         = Inr (eye 8)"
    by code_simp
  have two: "map_sum id extract_edges (build_graph 8 [(0, 7, 1 / 10)])
       = Inr [(0, 7, 13421773 / 134217728)]"
    unfolding build_graph_eval[OF a' b' c']
    by (simp add: nx_edges_def float32_values extract_edges_def e_direction_def)
  show ?thesis using one two by simp
qed

text \<open>
  C8, amended: for every edge list in which no ordered pair (source, destination) occurs
  with two different weights, and from which the construction succeeds, the edges of the
  graph whose direction flag is not 1 are exactly the edges of the list with each weight
  rounded to float32; they are exactly the edges of the list, weights included, when
  the weights of the list are float32 numbers.
\<close>

theorem extract_edges_roundtrip:
  assumes "build_graph F es = Inr G" and "inj_on edge_key (set es)"
  shows "set (extract_edges G) = (\<lambda>(s, d, w). (s, d, float32 w)) ` set es
       \<and> ((\<forall>(s, d, w) \<in> set es. float32 w = w) \<longrightarrow> set (extract_edges G) = set es)"
proof -
  note b = build_graph_Inr[OF assms(1)]
  let ?X = "nx_edges (read_weighted_edgelist es)"
  have "map (\<lambda>(s, d, w, dir). (s, d, w)) (filter (\<lambda>e. e_direction e \<noteq> 1)
           (map (\<lambda>(s, d, w). (s, d, float32 w, 0)) xs @ map (\<lambda>(s, d, w). (d, s, float32 w, 1)) xs))
        = map (\<lambda>(s, d, w). (s, d, float32 w)) xs"
    for xs :: "(nat \<times> nat \<times> real) list"
    by (induction xs) (auto simp: e_direction_def)
  then have "extract_edges G = map (\<lambda>(s, d, w). (s, d, float32 w)) ?X"
    unfolding extract_edges_def b(4) .
  then have r: "set (extract_edges G) = (\<lambda>(s, d, w). (s, d, float32 w)) ` set es"
    using read_set[OF assms(2)] by simp
  have "(\<lambda>(s, d, w). (s, d, float32 w)) ` set es = set es"
    if "\<forall>(s, d, w) \<in> set es. float32 w = w"
    using that by (auto simp: image_iff) force
  then show ?thesis using r by simp
qed

theorem extract_edges_roundtrip_witness:
  "inj_on edge_key (set [(0, 1, 2 :: real), (1, 2, 1)])
   \<and> set (extract_edges \<lparr>n_nodes = 3, edges = [(0, 1, 2, 0), (1, 2, 1, 0), (1, 0, 2, 1), (2, 1, 1, 1)],
            ndata_h = [[1, 0], [0, 1], [0, 1]]\<rparr>) = set [(0, 1, 2), (1, 2, 1)]"
proof -
  have i: "inj_on edge_key (set [(0, 1, 2 :: real), (1, 2, 1)])" by (simp add: edge_key_def)
  have f: "\<forall>(s, d, w) \<in> set [(0 :: nat, 1 :: nat, 2 :: real), (1, 2, 1)]. float32 w = w"
    by (simp add: float32_values)
  show ?thesis using i f extract_edges_roundtrip[OF build_graph_example i] by blast
qed

subsection \<open>Every built graph is well formed\<close>




lemma build_graph_too_few_nodes:
  assumes "es \<noteq> []" and "Max (node_ids es) < 7"
  shows "build_graph 8 es = Inl TorchError"
proof -
  let ?D = "read_weighted_edgelist es"
  have "set (nx_nodes ?D) \<noteq> {}" using assms(1) unfolding read_nodes by (cases es) auto
  then have ne: "nx_nodes ?D \<noteq> []" by auto
  then obtain l where l: "sorted_last (nx_nodes ?D) = Inr l" by (simp add: sorted_last_def)
  have lm: "l = Max (node_ids es)" using sorted_last_Inr[OF l] by (simp add: read_nodes node_ids_def)
  have "make_node_feature (Suc l) 8 = Inl TorchError"
    using assms(2) lm by (simp add: make_node_feature_def)
  then show ?thesis by (simp add: build_graph_def l padded_length[OF l] Let_def)
qed

lemma build_graph_empty: "build_graph F [] = Inl IndexError"
  by (simp add: build_graph_def read_weighted_edgelist_def nx_nodes_def sorted_last_def)

lemma build_graph_flags:
  assumes "build_graph F es = Inr G"
  shows "\<forall>e \<in> set (edges G). e_direction e = 0 \<or> e_direction e = 1"
  unfolding build_graph_Inr(4)[OF assms] by (auto simp: e_direction_def)



section \<open>Properties of the layers and of the readout\<close>

subsection \<open>Sums and the softmax\<close>

lemma vsum_Nil: "vsum D [] = replicate D 0"
  by (simp add: vsum_def map_replicate_const)

lemma sum_list_divide_const: "sum_list (map (\<lambda>x. f x / c) xs) = sum_list (map f xs) / (c :: real)"
  by (induction xs) (auto simp: add_divide_distrib)

lemma sum_list_exp_nonneg: "0 \<le> sum_list (map exp (xs :: real list))"
  by (rule sum_list_nonneg) auto

lemma sum_list_exp_pos: "xs \<noteq> [] \<Longrightarrow> 0 < sum_list (map exp (xs :: real list))"
proof (cases xs)
  case Nil then show "xs \<noteq> [] \<Longrightarrow> ?thesis" by simp
next
  case (Cons a ys)
  have "0 < exp a + sum_list (map exp ys)"
    by (rule add_pos_nonneg) (simp_all add: sum_list_exp_nonneg)
  then show ?thesis using Cons by simp
qed

lemma sum_list_softmax: "xs \<noteq> [] \<Longrightarrow> sum_list (softmax xs) = 1"
  using sum_list_exp_pos[of xs] by (simp add: softmax_def sum_list_divide_const)

text \<open>The weights that \<^verbatim>\<open>reduce_func\<close> computes sum to 1, whatever the mailbox holds:
  the list of logits is never empty, because of the self term.\<close>

lemma gat_alpha_sums_to_one: "sum_list (gat_alpha mb e_self) = 1"
  unfolding gat_alpha_def by (rule sum_list_softmax) simp

lemma gat_alpha_length: "length (gat_alpha mb e_self) = Suc (length mb)"
  by (simp add: gat_alpha_def softmax_def)

subsection \<open>The readout\<close>

lemma length_concat_uniform:
  "\<forall>r \<in> set rows. length r = D \<Longrightarrow> length (concat rows) = length rows * D"
  by (induction rows) auto

lemma concat_nth_uniform:
  "\<forall>r \<in> set rows. length r = D \<Longrightarrow> i < length rows \<Longrightarrow> j < D \<Longrightarrow>
   concat rows ! (i * D + j) = rows ! i ! j"
proof (induction rows arbitrary: i)
  case Nil then show ?case by simp
next
  case (Cons r rows)
  show ?case
  proof (cases i)
    case 0 then show ?thesis using Cons.prems by (simp add: nth_append)
  next
    case (Suc i')
    then show ?thesis using Cons.prems Cons.IH[of i'] by (simp add: nth_append)
  qed
qed

lemma width_uniform: "x \<noteq> [] \<Longrightarrow> \<forall>r \<in> set x. length r = D \<Longrightarrow> width x = D"
  by (cases x) (auto simp: width_def)

lemma sum_list_drop_nth:
  "sum_list (map f (drop n xs)) = (\<Sum>k = n..<length xs. f (xs ! k))" if "n \<le> length xs"
proof -
  have "sum_list (map f (drop n xs)) = (\<Sum>i = 0..<length xs - n. f (xs ! (n + i)))"
    by (simp add: sum_list_sum_nth that)
  also have "\<dots> = (\<Sum>k = n..<length xs. f (xs ! k))"
    using sum.shift_bounds_nat_ivl[of "\<lambda>k. f (xs ! k)" 0 n "length xs - n"] that
    by (simp add: add.commute)
  finally show ?thesis .
qed

lemma set_drop_nth: "n \<le> length xs \<Longrightarrow> set (map f (drop n xs)) = (\<lambda>k. f (xs ! k)) ` {n..<length xs}"
proof -
  assume n: "n \<le> length xs"
  have "set (drop n xs) = (\<lambda>k. xs ! k) ` {n..<length xs}"
  proof (intro set_eqI iffI)
    fix x assume "x \<in> set (drop n xs)"
    then obtain i where "i < length xs - n" "x = drop n xs ! i" by (auto simp: in_set_conv_nth)
    then have "x = xs ! (n + i)" "n + i \<in> {n..<length xs}" using n by auto
    then show "x \<in> (\<lambda>k. xs ! k) ` {n..<length xs}" by blast
  next
    fix x assume "x \<in> (\<lambda>k. xs ! k) ` {n..<length xs}"
    then obtain k where k: "n \<le> k" "k < length xs" "x = xs ! k" by auto
    then have "x = drop n xs ! (k - n)" "k - n < length (drop n xs)" by auto
    then show "x \<in> set (drop n xs)" using nth_mem by metis
  qed
  then show ?thesis by (simp add: image_image)
qed

lemma col_max_nth:
  assumes "x \<noteq> []" "\<forall>r \<in> set x. length r = D" "j < D"
  shows "col_max x ! j = Max (set (map (\<lambda>r. r ! j) x))"
proof -
  obtain r rs where x: "x = r # rs" using assms(1) by (cases x) auto
  have "col_max x ! j = fold max (map (\<lambda>r. r ! j) rs) (r ! j)"
    using assms(3) width_uniform[OF assms(1,2)] by (simp add: col_max_def x)
  also have "\<dots> = Max (set ((r ! j) # map (\<lambda>r. r ! j) rs))"
    by (simp only: Max.set_eq_fold)
  finally show ?thesis by (simp add: x)
qed

text \<open>
  C6: for node embeddings of at least 8 rows of width \<open>D\<close>, the readout succeeds with a
  vector of \<open>9 * D\<close> entries: the rows 0 to 6 in index order, then the column means of
  the rows from 7 on, then their column maxima. The width does not depend on the number
  of rows.
\<close>

theorem readout_fixed_width:
  assumes "8 \<le> length hg" and "\<forall>r \<in> set hg. length r = D"
  shows "\<exists>r. readout hg = Inr r \<and> length r = 9 * D
          \<and> (\<forall>i < 7. \<forall>j < D. r ! (i * D + j) = hg ! i ! j)
          \<and> (\<forall>j < D. r ! (7 * D + j) = (\<Sum>k = 7..<length hg. hg ! k ! j) / real (length hg - 7))
          \<and> (\<forall>j < D. r ! (8 * D + j) = Max ((\<lambda>k. hg ! k ! j) ` {7..<length hg}))"
proof -
  let ?rest = "drop 7 hg"
  let ?rows = "take 7 hg @ [col_mean ?rest] @ [col_max ?rest]"
  have ne: "?rest \<noteq> []" using assms(1) by simp
  have ru: "\<forall>r \<in> set ?rest. length r = D" using assms(2) by (meson in_set_dropD)
  have w: "width ?rest = D" by (rule width_uniform[OF ne ru])
  have r: "readout hg = Inr (concat ?rows)" using ne by (simp add: readout_def Let_def)
  have lm: "length (col_mean ?rest) = D" by (simp add: col_mean_def vsum_def w)
  have lx: "length (col_max ?rest) = D" by (simp add: col_max_def w)
  have u: "\<forall>r \<in> set ?rows. length r = D"
    using assms(2) lm lx by (auto dest: in_set_takeD)
  have n: "length ?rows = 9" using assms(1) by simp
  have len: "length (concat ?rows) = 9 * D" using length_concat_uniform[OF u] n by simp
  have head: "concat ?rows ! (i * D + j) = hg ! i ! j" if "i < 7" "j < D" for i j
    using concat_nth_uniform[OF u, of i j] that n assms(1) by (simp add: nth_append)
  have mean: "concat ?rows ! (7 * D + j) = (\<Sum>k = 7..<length hg. hg ! k ! j) / real (length hg - 7)"
    if "j < D" for j
  proof -
    have "concat ?rows ! (7 * D + j) = ?rows ! 7 ! j"
      using concat_nth_uniform[OF u, of 7 j] that n by simp
    also have "?rows ! 7 = col_mean ?rest" using assms(1) by (simp add: nth_append)
    also have "col_mean ?rest ! j = sum_list (map (\<lambda>r. r ! j) ?rest) / real (length hg - 7)"
      using that by (simp add: col_mean_def vsum_def w)
    also have "sum_list (map (\<lambda>r. r ! j) ?rest) = (\<Sum>k = 7..<length hg. hg ! k ! j)"
      using sum_list_drop_nth[of 7 hg "\<lambda>r. r ! j"] assms(1) by simp
    finally show ?thesis .
  qed
  have mx: "concat ?rows ! (8 * D + j) = Max ((\<lambda>k. hg ! k ! j) ` {7..<length hg})"
    if "j < D" for j
  proof -
    have "concat ?rows ! (8 * D + j) = ?rows ! 8 ! j"
      using concat_nth_uniform[OF u, of 8 j] that n by simp
    also have "?rows ! 8 = col_max ?rest" using assms(1) by (simp add: nth_append)
    also have "col_max ?rest ! j = Max (set (map (\<lambda>r. r ! j) ?rest))"
      by (rule col_max_nth[OF ne ru that])
    also have "set (map (\<lambda>r. r ! j) ?rest) = (\<lambda>k. hg ! k ! j) ` {7..<length hg}"
      using set_drop_nth[of 7 hg "\<lambda>r. r ! j"] assms(1) by simp
    finally show ?thesis .
  qed
  show ?thesis using r len head mean mx by blast
qed

theorem readout_fixed_width_witness:
  "8 \<le> length [[1], [2], [3], [4], [5], [6], [7], [8], [10 :: real]]
   \<and> (\<exists>r. readout [[1], [2], [3], [4], [5], [6], [7], [8], [10]] = Inr r \<and> length r = 9
          \<and> r ! 0 = 1 \<and> r ! 7 = 9 \<and> r ! 8 = 10)"
proof -
  let ?h = "[[1], [2], [3], [4], [5], [6], [7], [8], [10 :: real]]"
  have a: "8 \<le> length ?h" and b: "\<forall>r \<in> set ?h. length r = 1" by simp_all
  have l: "length ?h = 9" by simp
  have s: "{7..<9} = {7 :: nat, 8}" by auto
  have n: "?h ! 0 = [1]" "?h ! 7 = [8]" "?h ! 8 = [10]" by (simp_all add: eval_nat_numeral)
  from readout_fixed_width[OF a b] obtain r where r: "readout ?h = Inr r" "length r = 9 * 1"
    "\<forall>i < 7. \<forall>j < 1. r ! (i * 1 + j) = ?h ! i ! j"
    "\<forall>j < 1. r ! (7 * 1 + j) = (\<Sum>k = 7..<length ?h. ?h ! k ! j) / real (length ?h - 7)"
    "\<forall>j < 1. r ! (8 * 1 + j) = Max ((\<lambda>k. ?h ! k ! j) ` {7..<length ?h})"
    by blast
  have "r ! 0 = 1" using r(3)[rule_format, of 0 0] by simp
  moreover have "r ! 7 = 9" using r(4)[rule_format, of 0, unfolded l s] by (simp add: n)
  moreover have "r ! 8 = 10" using r(5)[rule_format, of 0, unfolded l s] by (simp add: n)
  ultimately show ?thesis using r(1,2) by simp
qed

text \<open>
  C9, as stated, at embeddings of seven nodes: the readout fails with the exception that
  \<^verbatim>\<open>torch.max\<close> raises, not with an \<^verbatim>\<open>InsufficientNodesError\<close>.
\<close>

theorem readout_too_few_nodes_counterexample:
  "readout (replicate 7 [1]) = Inl TorchError
   \<and> readout (replicate 7 [1]) \<noteq> Inl InsufficientNodesError"
  by (simp add: readout_def)

text \<open>
  C9, amended: for every graph with fewer than 8 nodes the readout fails with the
  exception that \<^verbatim>\<open>torch.max\<close> raises on the empty remainder, whatever its class in
  the torch release, and not with an \<^verbatim>\<open>InsufficientNodesError\<close>; it returns no pooled
  value.
\<close>

theorem readout_too_few_nodes:
  assumes "length hg < 8"
  shows "readout hg = Inl TorchError"
  using assms by (simp add: readout_def Let_def)

theorem readout_too_few_nodes_witness:
  "length [[1 :: real], [2]] < 8 \<and> readout [[1], [2]] = Inl TorchError"
  using readout_too_few_nodes[of "[[1], [2]]"] by simp

subsection \<open>BiDirectionalGCN\<close>

lemma bigcn_mailbox:
  "mailbox bigcn_message_func es h v
     = map (\<lambda>e. (map (\<lambda>a. a * e_weight e) (h ! e_src e), e_direction e))
         (filter (\<lambda>e. e_dst e = v) es)"
  by (induction es)
     (auto simp: mailbox_def bigcn_message_func_def e_src_def e_dst_def e_weight_def e_direction_def)

lemma masked_sum_list:
  assumes "\<forall>p \<in> set mb. length (fst p) = D" and "\<forall>p \<in> set mb. c (snd p) = 0 \<or> c (snd p) = (1 :: real)"
    and "j < D"
  shows "sum_list (map (\<lambda>r. r ! j) (map (\<lambda>(m, d). map (\<lambda>a. a * c d) m) mb))
       = sum_list (map (\<lambda>r. r ! j) (map fst (filter (\<lambda>p. c (snd p) = 1) mb)))"
  using assms by (induction mb) (auto simp: split_def)

lemma masked_vsum:
  assumes "\<forall>p \<in> set mb. length (fst p) = D" and "\<forall>p \<in> set mb. c (snd p) = 0 \<or> c (snd p) = (1 :: real)"
  shows "vsum D (map (\<lambda>(m, d). map (\<lambda>a. a * c d) m) mb)
       = vsum D (map fst (filter (\<lambda>p. c (snd p) = 1) mb))"
  unfolding vsum_def using masked_sum_list[OF assms] by simp

lemma float_mod_flip: "float_mod (0 + 1) 2 = 1" "float_mod (1 + 1) 2 = 0"
  by (simp_all add: float_mod_def)

lemma bigcn_reduce_sums:
  assumes "mb \<noteq> []" and "\<forall>p \<in> set mb. length (fst p) = D"
    and "\<forall>p \<in> set mb. snd p = 0 \<or> snd p = 1"
  shows "bigcn_reduce_func node_h mb
       = (vsum D (map fst (filter (\<lambda>p. snd p = 1) mb)), vsum D (map fst (filter (\<lambda>p. snd p = 0) mb)))"
proof -
  have w: "width (map fst mb) = D" using assms(1,2) by (cases mb) (auto simp: width_def)
  have h0: "vsum D (map (\<lambda>(m, d). map (\<lambda>a. a * d) m) mb) = vsum D (map fst (filter (\<lambda>p. snd p = 1) mb))"
    using masked_vsum[OF assms(2), of "\<lambda>d. d"] assms(3) by simp
  have c: "\<forall>p \<in> set mb. float_mod (snd p + 1) 2 = 0 \<or> float_mod (snd p + 1) 2 = 1"
    using assms(3) float_mod_flip by auto
  have f: "filter (\<lambda>p. float_mod (snd p + 1) 2 = 1) mb = filter (\<lambda>p. snd p = 0) mb"
    using assms(3) float_mod_flip by (intro filter_cong) auto
  have e: "map (\<lambda>(m, d). map (\<lambda>a. a * d) m) (map (\<lambda>(m, d). (m, float_mod (d + 1) 2)) xs)
      = map (\<lambda>(m, d). map (\<lambda>a. a * float_mod (d + 1) 2) m) xs" for xs :: "(vec \<times> real) list"
    by (induction xs) auto
  have h1: "vsum D (map (\<lambda>(m, d). map (\<lambda>a. a * d) m) (map (\<lambda>(m, d). (m, float_mod (d + 1) 2)) mb))
      = vsum D (map fst (filter (\<lambda>p. snd p = 0) mb))"
    unfolding e using masked_vsum[OF assms(2) c] f by simp
  show ?thesis unfolding bigcn_reduce_func_def Let_def w h0 h1 ..
qed

lemma bigcn_forward_Inr:
  assumes "bigcn_forward P g h = Inr h'"
  shows "length h = n_nodes g" "edges g \<noteq> []" "\<forall>row \<in> set h. length row = in_feats P"
    "h' = map2 (bigcn_node_apply_func P) h
           (map (\<lambda>v. let mb = mailbox bigcn_message_func (edges g) h v
                      in if mb = [] then (replicate (in_feats P) 0, replicate (in_feats P) 0)
                         else bigcn_reduce_func (h ! v) mb) [0..<n_nodes g])"
  using assms by (auto simp: bigcn_forward_def update_all_def split: if_splits)

lemma bigcn_example_ok:
  "bigcn_ok \<lparr>in_feats = 1, out_feats = 1, bi_fc_weight = [[0, 1, 0]], bi_fc_bias = [0],
              bi_activation = relu\<rparr>"
  by (simp add: bigcn_ok_def)

text \<open>
  C1, as stated, on the graph built from the single edge (0, 1, 1.0), with embeddings
  [[1], [2]] and a linear map that returns the second of its three inputs: node 1 has
  one incoming edge, of direction 0, so the claim's \<open>h0\<close> is [1] and the claimed output
  is [1]; the layer puts that message in the third block and returns [0].
\<close>

theorem bigcn_forward_node_counterexample:
  "map_sum id (\<lambda>h'. h' ! 1)
     (bigcn_forward \<lparr>in_feats = 1, out_feats = 1, bi_fc_weight = [[0, 1, 0]], bi_fc_bias = [0],
                     bi_activation = relu\<rparr>
        \<lparr>n_nodes = 2, edges = [(0, 1, 1, 0), (1, 0, 1, 1)], ndata_h = []\<rparr> [[1], [2]]) = Inr [0]
   \<and> map relu (linear [[0, 1, 0]] [0]
        ([[1], [2]] ! 1
         @ directed_sum 1 \<lparr>n_nodes = 2, edges = [(0, 1, 1, 0), (1, 0, 1, 1)], ndata_h = []\<rparr> [[1], [2]] 1 0
         @ directed_sum 1 \<lparr>n_nodes = 2, edges = [(0, 1, 1, 0), (1, 0, 1, 1)], ndata_h = []\<rparr> [[1], [2]] 1 1))
       = [1]"
  by (simp add: bigcn_forward_def update_all_def mailbox_def bigcn_message_func_def
      bigcn_reduce_func_def bigcn_node_apply_func_def directed_sum_def vsum_def width_def
      linear_def matvec_def dot_def relu_def float_mod_def e_src_def e_dst_def e_weight_def
      e_direction_def Let_def upt_rec numeral_2_eq_2)

text \<open>
  C1, amended: when the forward pass succeeds on a graph whose edges join its own nodes
  and whose direction flags are 0 or 1 (as in every built graph), the new embedding of every node \<open>v\<close> is the activation of the linear map applied
  to the concatenation of its embedding, of the sum of the incoming messages over the
  edges with direction 1 (the block the code names \<open>h0\<close>) and of the sum over the edges
  with direction 0 (the block named \<open>h1\<close>); a sum over no edge is the zero vector.
\<close>

theorem bigcn_forward_node:
  assumes "bigcn_forward P g h = Inr h'" and "valid_graph g" and "v < n_nodes g"
    and "\<forall>e \<in> set (edges g). e_direction e = 0 \<or> e_direction e = 1"
  shows "h' ! v = map (bi_activation P) (linear (bi_fc_weight P) (bi_fc_bias P)
                    (h ! v @ directed_sum (in_feats P) g h v 1 @ directed_sum (in_feats P) g h v 0))"
proof -
  note f = bigcn_forward_Inr[OF assms(1)]
  let ?D = "in_feats P"
  let ?msg = "\<lambda>e. (map (\<lambda>a. a * e_weight e) (h ! e_src e), e_direction e)"
  let ?mb = "map ?msg (filter (\<lambda>e. e_dst e = v) (edges g))"
  let ?r = "if ?mb = [] then (replicate ?D 0, replicate ?D 0) else bigcn_reduce_func (h ! v) ?mb"
  have hv: "h' ! v = bigcn_node_apply_func P (h ! v) ?r"
    using f(1) assms(3) unfolding f(4) bigcn_mailbox by (simp add: Let_def)
  have len: "\<forall>p \<in> set ?mb. length (fst p) = ?D"
    using assms(2) f(1,3) by (auto simp: valid_graph_def)
  have flg: "\<forall>p \<in> set ?mb. snd p = 0 \<or> snd p = 1" using assms(4) by auto
  have sel: "map fst (filter (\<lambda>p. snd p = d) ?mb)
      = map (\<lambda>e. map (\<lambda>a. a * e_weight e) (h ! e_src e))
          (filter (\<lambda>e. e_dst e = v \<and> e_direction e = d) (edges g))" for d
    by (simp add: filter_map comp_def conj_commute)
  have "?r = (directed_sum ?D g h v 1, directed_sum ?D g h v 0)"
  proof (cases "?mb = []")
    case True
    then have "filter (\<lambda>e. e_dst e = v \<and> e_direction e = d) (edges g) = []" for d
      by (auto simp: filter_empty_conv)
    then show ?thesis using True by (simp add: directed_sum_def vsum_Nil)
  next
    case False
    show ?thesis using False bigcn_reduce_sums[OF False len flg, of "h ! v"]
      unfolding sel directed_sum_def by simp
  qed
  then show ?thesis using hv by (simp add: bigcn_node_apply_func_def)
qed

theorem bigcn_forward_node_witness:
  "valid_graph \<lparr>n_nodes = 2, edges = [(0, 1, 1, 0), (1, 0, 1, 1)], ndata_h = []\<rparr>
   \<and> [[2], [0 :: real]] ! 1
       = map relu (linear [[0, 1, 0]] [0]
           ([[1], [2]] ! 1
            @ directed_sum 1 \<lparr>n_nodes = 2, edges = [(0, 1, 1, 0), (1, 0, 1, 1)], ndata_h = []\<rparr> [[1], [2]] 1 1
            @ directed_sum 1 \<lparr>n_nodes = 2, edges = [(0, 1, 1, 0), (1, 0, 1, 1)], ndata_h = []\<rparr> [[1], [2]] 1 0))"
proof -
  let ?P = "\<lparr>in_feats = 1, out_feats = 1, bi_fc_weight = [[0, 1, 0]], bi_fc_bias = [0],
             bi_activation = relu\<rparr>"
  let ?g = "\<lparr>n_nodes = 2, edges = [(0, 1, 1, 0), (1, 0, 1, 1)], ndata_h = []\<rparr>"
  have fw: "bigcn_forward ?P ?g [[1], [2]] = Inr [[2], [0]]"
    by (simp add: bigcn_forward_def update_all_def mailbox_def bigcn_message_func_def
      bigcn_reduce_func_def bigcn_node_apply_func_def vsum_def width_def
      linear_def matvec_def dot_def relu_def float_mod_def Let_def upt_rec numeral_2_eq_2)
  have vg: "valid_graph ?g" by (simp add: valid_graph_def e_src_def e_dst_def)
  have v: "1 < n_nodes ?g" by simp
  have fl: "\<forall>e \<in> set (edges ?g). e_direction e = 0 \<or> e_direction e = 1"
    by (simp add: e_direction_def)
  show ?thesis using vg bigcn_forward_node[OF fw vg v fl] by simp
qed

subsection \<open>GATWithSelfLoop\<close>

text \<open>Had \<^verbatim>\<open>reduce_func\<close> been called on an empty mailbox, the only attention weight
  would be 1 and the result the activation of \<^verbatim>\<open>z_self\<close>.\<close>

lemma gat_reduce_empty_mailbox:
  "gat_reduce_func P nd [] = map (gat_activation P) (nd_z_self nd)"
proof -
  have v: "vsum (length z) [z] = z" for z :: vec
    by (simp add: vsum_def map_nth)
  have m: "map ((*) (1 :: real)) z = z" for z :: vec
    by (induction z) auto
  show ?thesis
    by (simp add: gat_reduce_func_def gat_alpha_def softmax_def Let_def m v)
qed

lemma mailbox_no_incoming:
  "\<forall>e \<in> set es. fst (snd e) \<noteq> v \<Longrightarrow> mailbox f es nd v = []"
  by (auto simp: mailbox_def filter_empty_conv)

lemma gat_forward_no_incoming:
  assumes "gat_forward P g h = Inr h'" and "edges g \<noteq> []" and "v < n_nodes g"
    and "\<forall>e \<in> set (edges g). e_dst e \<noteq> v"
  shows "h' ! v = replicate (out_dim P) 0"
proof -
  let ?nd = "map (gat_node_apply_func P) h"
  let ?es = "apply_edges (gat_edge_attention P) (edges g) ?nd"
  have ne: "?es \<noteq> []" using assms(2) by (simp add: apply_edges_def)
  have "\<forall>e \<in> set ?es. fst (snd e) \<noteq> v"
    using assms(4) by (auto simp: apply_edges_def e_dst_def)
  then have mb: "mailbox gat_message_func ?es ?nd v = []" by (rule mailbox_no_incoming)
  have "h' = map (\<lambda>v. let mb = mailbox gat_message_func ?es ?nd v
                       in if mb = [] then replicate (out_dim P) 0
                          else gat_reduce_func P (?nd ! v) mb) [0..<n_nodes g]"
    using assms(1) ne by (simp add: gat_forward_def update_all_def Let_def split: if_splits)
  then show ?thesis using assms(3) mb by simp
qed

lemma gat_example_ok:
  "gat_ok \<lparr>in_dim = 1, out_dim = 1, gat_fc = [[1]], gat_attn_fc = [0, 0],
            gat_self_fc = [[1]], gat_self_attn_fc = [0], gat_activation = relu\<rparr>"
  by (simp add: gat_ok_def)

text \<open>
  C2 says that a node without incoming edge gets the activation of its \<^verbatim>\<open>z_self\<close>. The
  layer evaluated at a graph of three nodes with the edge from 0 to 2 and its mirror,
  where node 1 has no incoming edge: with all embeddings [1] and \<^verbatim>\<open>self_fc\<close> the
  identity, the activation of \<^verbatim>\<open>z_self\<close> is [1] at node 1, and the layer returns [0]
  there, because \<^verbatim>\<open>reduce_func\<close> is not called for that node. The padded nodes of the
  graphs of the construction are such nodes (\<open>gat_attention_isolated_node\<close> below is on
  the graph built from [(0, 8, 1.0)]).
\<close>

theorem gat_forward_isolated_node:
  "map_sum id (\<lambda>h'. h' ! 1)
     (gat_forward \<lparr>in_dim = 1, out_dim = 1, gat_fc = [[1]], gat_attn_fc = [0, 0],
                   gat_self_fc = [[1]], gat_self_attn_fc = [0], gat_activation = relu\<rparr>
        \<lparr>n_nodes = 3, edges = [(0, 2, 1, 0), (2, 0, 1, 1)], ndata_h = []\<rparr>
        [[1], [1], [1]]) = Inr [0]
   \<and> map relu (nd_z_self (gat_node_apply_func
        \<lparr>in_dim = 1, out_dim = 1, gat_fc = [[1]], gat_attn_fc = [0, 0],
          gat_self_fc = [[1]], gat_self_attn_fc = [0], gat_activation = relu\<rparr> ([[1], [1], [1]] ! 1)))
       = [1]"
  by (simp add: gat_forward_def update_all_def apply_edges_def mailbox_def
    gat_node_apply_func_def gat_edge_attention_def gat_message_func_def gat_reduce_func_def
    gat_alpha_def softmax_def vsum_def matvec_def dot_def leaky_relu_def relu_def nd_z_def nd_z_self_def nd_e_self_def
    Let_def upt_rec numeral_3_eq_3)

lemma gat_mailbox_skel:
  "mailbox gat_message_func (apply_edges (gat_edge_attention P) es nd) nd v
     = map (\<lambda>(s, d). (nd_z (nd ! s), gat_edge_attention P (nd ! s) (nd ! d) (0, 0)))
         (filter (\<lambda>(s, d). d = v) (map (\<lambda>e. (e_src e, e_dst e)) es))"
  by (induction es)
     (auto simp: mailbox_def apply_edges_def gat_message_func_def gat_edge_attention_def
        e_src_def e_dst_def)

text \<open>
  Where \<^verbatim>\<open>reduce_func\<close> runs, that is at every node with an incoming edge, the layer
  computes one weight per incoming edge and one for the self term; the weights sum to 1,
  and the new embedding is the activation of the sum of the projected embeddings of the
  sources and of \<^verbatim>\<open>z_self\<close>, each scaled by its weight.
\<close>

lemma gat_attention_at_node:
  assumes "gat_forward P g h = Inr h'" and "v < n_nodes g"
    and "\<exists>e \<in> set (edges g). e_dst e = v"
  shows "\<exists>alpha. gat_attention P g h v = Some alpha \<and> sum_list alpha = 1
          \<and> length alpha = Suc (length (filter (\<lambda>e. e_dst e = v) (edges g)))
          \<and> h' ! v = map (gat_activation P)
               (vsum (length (nd_z_self (map (gat_node_apply_func P) h ! v)))
                  (map2 (\<lambda>a zr. map (\<lambda>x. a * x) zr) alpha
                     (map (\<lambda>e. nd_z (map (gat_node_apply_func P) h ! e_src e))
                        (filter (\<lambda>e. e_dst e = v) (edges g))
                      @ [nd_z_self (map (gat_node_apply_func P) h ! v)])))"
proof -
  let ?nd = "map (gat_node_apply_func P) h"
  let ?es = "apply_edges (gat_edge_attention P) (edges g) ?nd"
  let ?mb = "mailbox gat_message_func ?es ?nd v"
  let ?in = "filter (\<lambda>e. e_dst e = v) (edges g)"
  have sk: "filter (\<lambda>(s, d). d = v) (map (\<lambda>e. (e_src e, e_dst e)) xs)
          = map (\<lambda>e. (e_src e, e_dst e)) (filter (\<lambda>e. e_dst e = v) xs)" for xs :: "edge list"
    by (induction xs) auto
  have mb: "?mb = map (\<lambda>e. (nd_z (?nd ! e_src e),
                           gat_edge_attention P (?nd ! e_src e) (?nd ! e_dst e) (0, 0))) ?in"
    unfolding gat_mailbox_skel sk by (simp add: comp_def)
  have ne: "?in \<noteq> []" using assms(3) by (auto simp: filter_empty_conv)
  then have mne: "?mb \<noteq> []" unfolding mb by simp
  have en: "edges g \<noteq> []" using assms(3) by auto
  have "h' = map (\<lambda>v. let mb = mailbox gat_message_func ?es ?nd v
                       in if mb = [] then replicate (out_dim P) 0
                          else gat_reduce_func P (?nd ! v) mb) [0..<n_nodes g]"
    using assms(1) en
    by (simp add: gat_forward_def update_all_def Let_def apply_edges_def split: if_splits)
  then have hv: "h' ! v = gat_reduce_func P (?nd ! v) ?mb" using assms(2) mne by simp
  let ?alpha = "gat_alpha ?mb (nd_e_self (?nd ! v))"
  have a: "gat_attention P g h v = Some ?alpha" using mne by (simp add: gat_attention_def Let_def)
  have l: "length ?alpha = Suc (length ?in)" unfolding gat_alpha_length mb by simp
  have z: "map fst ?mb = map (\<lambda>e. nd_z (?nd ! e_src e)) ?in" unfolding mb by (simp add: comp_def)
  have "h' ! v = map (gat_activation P)
               (vsum (length (nd_z_self (?nd ! v)))
                  (map2 (\<lambda>a zr. map (\<lambda>x. a * x) zr) ?alpha
                     (map (\<lambda>e. nd_z (?nd ! e_src e)) ?in @ [nd_z_self (?nd ! v)])))"
    unfolding hv gat_reduce_func_def Let_def z ..
  then show ?thesis using a l gat_alpha_sums_to_one by blast
qed

text \<open>
  C3 says that the attention weights of every node, the self term included, sum to 1.
  The layer evaluated on the graph that the construction makes of the edge list
  [(0, 8, 1.0)], where node 1 has no incoming edge: \<^verbatim>\<open>reduce_func\<close> is not called for
  node 1, so the layer computes no attention weights there, the self term gets no
  weight, and the new embedding is the zero row although the activation of \<^verbatim>\<open>z_self\<close>
  is [1].
\<close>

theorem gat_attention_isolated_node:
  "gat_attention \<lparr>in_dim = 1, out_dim = 1, gat_fc = [[1]], gat_attn_fc = [0, 0],
                   gat_self_fc = [[1]], gat_self_attn_fc = [0], gat_activation = relu\<rparr>
      \<lparr>n_nodes = 9, edges = [(0, 8, 1, 0), (8, 0, 1, 1)],
        ndata_h = eye 8 @ [[0, 0, 0, 0, 0, 0, 0, 1]]\<rparr>
      [[1], [1], [1], [1], [1], [1], [1], [1], [1]] 1 = None
   \<and> map_sum id (\<lambda>h'. h' ! 1)
        (gat_forward \<lparr>in_dim = 1, out_dim = 1, gat_fc = [[1]], gat_attn_fc = [0, 0],
                      gat_self_fc = [[1]], gat_self_attn_fc = [0], gat_activation = relu\<rparr>
           \<lparr>n_nodes = 9, edges = [(0, 8, 1, 0), (8, 0, 1, 1)],
             ndata_h = eye 8 @ [[0, 0, 0, 0, 0, 0, 0, 1]]\<rparr>
           [[1], [1], [1], [1], [1], [1], [1], [1], [1]]) = Inr [0]
   \<and> map relu (nd_z_self (gat_node_apply_func
        \<lparr>in_dim = 1, out_dim = 1, gat_fc = [[1]], gat_attn_fc = [0, 0],
          gat_self_fc = [[1]], gat_self_attn_fc = [0], gat_activation = relu\<rparr>
        ([[1], [1], [1], [1], [1], [1], [1], [1], [1]] ! 1))) = [1]"
proof -
  let ?P = "\<lparr>in_dim = 1, out_dim = 1, gat_fc = [[1]], gat_attn_fc = [0, 0],
             gat_self_fc = [[1]], gat_self_attn_fc = [0], gat_activation = relu\<rparr>"
  let ?g = "\<lparr>n_nodes = 9, edges = [(0, 8, 1, 0), (8, 0, 1, 1)],
             ndata_h = eye 8 @ [[0, 0, 0, 0, 0, 0, 0, 1]]\<rparr>"
  let ?h = "[[1], [1], [1], [1], [1], [1], [1], [1], [1 :: real]]"
  have a: "gat_attention ?P ?g ?h 1 = None"
    by (simp add: gat_attention_def apply_edges_def mailbox_def Let_def)
  have f: "gat_forward ?P ?g ?h = Inr [[1], [0], [0], [0], [0], [0], [0], [0], [1]]"
    by (simp add: gat_forward_def update_all_def apply_edges_def mailbox_def
      gat_node_apply_func_def gat_edge_attention_def gat_message_func_def gat_reduce_func_def
      gat_alpha_def softmax_def vsum_def matvec_def dot_def leaky_relu_def relu_def nd_z_def
      nd_z_self_def nd_e_self_def Let_def upt_rec eval_nat_numeral)
  have z: "map relu (nd_z_self (gat_node_apply_func ?P (?h ! 1))) = [1]"
    by (simp add: gat_node_apply_func_def nd_z_self_def matvec_def dot_def relu_def Let_def)
  show ?thesis unfolding a f z by simp
qed

lemma build_graph_isolated:
  "build_graph 8 [(0, 8, 1)]
     = Inr \<lparr>n_nodes = 9, edges = [(0, 8, 1, 0), (8, 0, 1, 1)],
            ndata_h = eye 8 @ [[0, 0, 0, 0, 0, 0, 0, 1]]\<rparr>"
proof -
  have a: "sorted_last (nx_nodes (read_weighted_edgelist [(0, 8, 1)])) = Inr 8"
    by code_simp
  have b: "pad_nodes 8 (read_weighted_edgelist [(0, 8, 1)])
         = [(0, [(8, 1)]), (8, []), (1, []), (2, []), (3, []), (4, []), (5, []), (6, []), (7, [])]"
    by code_simp
  have c: "make_node_feature
             (length (nx_nodes [(0, [(8, 1)]), (8, []), (1, []), (2, []), (3, []), (4, []),
                                (5, []), (6, []), (7, [])])) 8
         = Inr (eye 8 @ [[0, 0, 0, 0, 0, 0, 0, 1]])"
    by code_simp
  show ?thesis
    unfolding build_graph_eval[OF a b c] by (simp add: nx_nodes_def nx_edges_def float32_values)
qed

text \<open>
  C10: two graphs with the same nodes and the same edges up to their weights get the same
  result from the layer, on the same input embeddings: errors and embeddings alike.
\<close>

theorem gat_ignores_weight:
  assumes "n_nodes g' = n_nodes g"
    and "map (\<lambda>e. (e_src e, e_dst e, e_direction e)) (edges g')
           = map (\<lambda>e. (e_src e, e_dst e, e_direction e)) (edges g)"
  shows "gat_forward P g' h = gat_forward P g h"
proof -
  have "map (\<lambda>t. (fst t, fst (snd t))) (map (\<lambda>e. (e_src e, e_dst e, e_direction e)) (edges g'))
      = map (\<lambda>t. (fst t, fst (snd t))) (map (\<lambda>e. (e_src e, e_dst e, e_direction e)) (edges g))"
    using assms(2) by simp
  then have sk: "map (\<lambda>e. (e_src e, e_dst e)) (edges g') = map (\<lambda>e. (e_src e, e_dst e)) (edges g)"
    by (simp add: comp_def)
  have em: "edges g' = [] \<longleftrightarrow> edges g = []"
    using arg_cong[OF sk, of length] by (simp del: length_0_conv add: length_0_conv[symmetric])
  show ?thesis
    unfolding gat_forward_def update_all_def Let_def gat_mailbox_skel sk assms(1)
    using em by (simp add: apply_edges_def)
qed

theorem gat_ignores_weight_witness:
  "gat_forward \<lparr>in_dim = 1, out_dim = 1, gat_fc = [[1]], gat_attn_fc = [1, 1],
                 gat_self_fc = [[1]], gat_self_attn_fc = [1], gat_activation = relu\<rparr>
      \<lparr>n_nodes = 2, edges = [(0, 1, 5, 0), (1, 0, 5, 1)], ndata_h = []\<rparr> [[1], [2]]
   = gat_forward \<lparr>in_dim = 1, out_dim = 1, gat_fc = [[1]], gat_attn_fc = [1, 1],
                   gat_self_fc = [[1]], gat_self_attn_fc = [1], gat_activation = relu\<rparr>
      \<lparr>n_nodes = 2, edges = [(0, 1, 1, 0), (1, 0, 1, 1)], ndata_h = []\<rparr> [[1], [2]]"
  by (rule gat_ignores_weight) (simp_all add: e_src_def e_dst_def e_direction_def)

text \<open>The BiDirectionalGCN layer, by contrast, reads the weight: the same graph with
  weight 5 instead of 1 gets other embeddings.\<close>

lemma bigcn_reads_weight:
  "bigcn_forward \<lparr>in_feats = 1, out_feats = 1, bi_fc_weight = [[0, 1, 1]], bi_fc_bias = [0],
                   bi_activation = relu\<rparr>
      \<lparr>n_nodes = 2, edges = [(0, 1, 5, 0), (1, 0, 5, 1)], ndata_h = []\<rparr> [[1], [2]]
   \<noteq> bigcn_forward \<lparr>in_feats = 1, out_feats = 1, bi_fc_weight = [[0, 1, 1]], bi_fc_bias = [0],
                   bi_activation = relu\<rparr>
      \<lparr>n_nodes = 2, edges = [(0, 1, 1, 0), (1, 0, 1, 1)], ndata_h = []\<rparr> [[1], [2]]"
  by (simp add: bigcn_forward_def update_all_def mailbox_def bigcn_message_func_def
      bigcn_reduce_func_def bigcn_node_apply_func_def vsum_def width_def
      linear_def matvec_def dot_def relu_def float_mod_def Let_def upt_rec numeral_2_eq_2)

section \<open>Batches\<close>

subsection \<open>Results in sequence\<close>



subsection \<open>Message passing on a disjoint union\<close>











lemma apply_edges_Nil: "apply_edges f es nd = [] \<longleftrightarrow> es = []"
  by (simp add: apply_edges_def)








subsection \<open>The classifier on a batch of two graphs\<close>

lemma shift_zero: "map (\<lambda>(s, d, x). (s + 0, d + 0, x)) es = (es :: (nat \<times> nat \<times> 'e) list)"
  by (induction es) auto


lemma batch_one:
  "n_nodes (batch [g]) = n_nodes g"
  "edges (batch [g]) = edges g"
  "ndata_h (batch [g]) = ndata_h g"
  "batch_num_nodes (batch [g]) = [n_nodes g]"
  by (simp_all add: batch_def shift_zero)




section \<open>The classifier returns on well-shaped input\<close>

text \<open>
  On a graph of at least 8 nodes with one edge or more, and with the widths of the
  layers fitting one another as the constructor of \<^verbatim>\<open>Classifier\<close> makes them, the
  forward pass raises nothing: it returns one readout row of \<open>9 * hidden_dim\<close> entries
  and one row of logits.
\<close>

lemma readout_Inr:
  assumes "8 \<le> length hg" and "\<forall>r \<in> set hg. length r = D"
  shows "\<exists>r. readout hg = Inr r \<and> length r = 9 * D"
proof -
  let ?rest = "drop 7 hg"
  let ?rows = "take 7 hg @ [col_mean ?rest] @ [col_max ?rest]"
  have ne: "?rest \<noteq> []" using assms(1) by simp
  have ru: "\<forall>r \<in> set ?rest. length r = D" using assms(2) by (meson in_set_dropD)
  have w: "width ?rest = D" by (rule width_uniform[OF ne ru])
  have u: "\<forall>r \<in> set ?rows. length r = D"
    using assms(2) by (auto simp: col_mean_def col_max_def vsum_def w dest: in_set_takeD)
  have "length (concat ?rows) = 9 * D" using length_concat_uniform[OF u] assms(1) by simp
  then show ?thesis using ne by (simp add: readout_def Let_def)
qed

lemma bigcn_forward_succeeds:
  assumes "length h = n_nodes g" and "edges g \<noteq> []" and "\<forall>row \<in> set h. length row = in_feats P"
    and "length (bi_fc_weight P) = D" and "length (bi_fc_bias P) = D"
  shows "\<exists>a. bigcn_forward P g h = Inr a \<and> length a = n_nodes g \<and> (\<forall>row \<in> set a. length row = D)"
proof -
  have "length (bigcn_node_apply_func P x r) = D" for x r
    using assms(4,5) by (cases r) (simp add: bigcn_node_apply_func_def linear_def matvec_def)
  then show ?thesis
    using assms(1,2,3) by (auto simp: bigcn_forward_def update_all_def dest!: set_zip_leftD in_set_zipE)
qed

lemma gat_forward_succeeds:
  assumes "length h = n_nodes g" and "edges g \<noteq> []" and "\<forall>row \<in> set h. length row = in_dim P"
    and "length (gat_self_fc P) = out_dim P"
  shows "\<exists>a. gat_forward P g h = Inr a \<and> length a = n_nodes g \<and> (\<forall>row \<in> set a. length row = out_dim P)"
proof -
  let ?nd = "map (gat_node_apply_func P) h"
  have z: "length (nd_z_self (?nd ! v)) = out_dim P" if "v < n_nodes g" for v
    using that assms(1,4) by (simp add: gat_node_apply_func_def nd_z_self_def Let_def matvec_def)
  have "length (gat_reduce_func P (?nd ! v) mb) = out_dim P" if "v < n_nodes g" for v mb
    using z[OF that] by (simp add: gat_reduce_func_def Let_def vsum_def)
  then show ?thesis
    using assms(1,2,3) by (auto simp: gat_forward_def update_all_def Let_def apply_edges_Nil)
qed

lemma classifier_forward_succeeds:
  assumes "graph_ok (in_feats (layer1 P)) g" and "8 \<le> n_nodes g"
    and "length (bi_fc_weight (layer1 P)) = in_dim (layer2 P)"
    and "length (bi_fc_bias (layer1 P)) = in_dim (layer2 P)"
    and "length (gat_self_fc (layer2 P)) = out_dim (layer2 P)"
    and "out_dim (layer2 P) = hidden_dim P"
  shows "\<exists>r y. classifier_features P (batch [g]) = Inr [r] \<and> length r = 9 * hidden_dim P
             \<and> classifier_forward P (batch [g]) = Inr [y]"
proof -
  let ?b = "batch [g]"
  have g: "length (ndata_h ?b) = n_nodes ?b" "edges ?b \<noteq> []"
    "\<forall>row \<in> set (ndata_h ?b). length row = in_feats (layer1 P)"
    using assms(1) by (simp_all add: graph_ok_def batch_one)
  from bigcn_forward_succeeds[OF g assms(3,4)] obtain a where
    a: "bigcn_forward (layer1 P) ?b (ndata_h ?b) = Inr a" "length a = n_nodes ?b"
       "\<forall>row \<in> set a. length row = in_dim (layer2 P)" by blast
  from gat_forward_succeeds[OF a(2) g(2) a(3) assms(5)] obtain c where
    c: "gat_forward (layer2 P) ?b a = Inr c" "length c = n_nodes ?b"
       "\<forall>row \<in> set c. length row = out_dim (layer2 P)" by blast
  have "8 \<le> length c" using c(2) assms(2) by (simp add: batch_one)
  from readout_Inr[OF this c(3)] obtain r where
    r: "readout c = Inr r" "length r = 9 * out_dim (layer2 P)" by blast
  have u: "unbatch_h (batch_num_nodes ?b) c = [c]" using c(2) by (simp add: batch_one)
  have f: "classifier_features P ?b = Inr [r]"
    by (simp add: classifier_features_def a(1) c(1) u r(1))
  show ?thesis using f r(2) assms(6) by (simp add: classifier_forward_def)
qed

end
